theory Spec2Isabelle
  imports Main "HOL-Library.Sublist"
begin

section \<open>Errors and callbacks\<close>

text \<open>
  A JavaScript exception is a value. \<open>QueueClosedError\<close> is the one error the queue
  itself raises; every other error (a validation failure of \<open>safeParseJSON\<close>, a
  failure of the underlying stream, whatever a callback throws) is \<open>Err x\<close>.
\<close>

datatype 'x js_error = QueueClosedError | Err 'x

text \<open>How a call ends: it returns, or it throws an error.\<close>

datatype 'e completion = Returns | Throws 'e

text \<open>
  \<open>ErrorHandler = (error: unknown) => void\<close>: a caller-supplied function. The
  caller's code may throw, so a handler maps the error it is given to the way the call
  ends. The parameter \<open>errorHandler?\<close> is optional: \<open>None\<close> is the absent handler.
\<close>

type_synonym 'e ErrorHandler = "'e \<Rightarrow> 'e completion"

section \<open>AsyncQueue\<close>

text \<open>
  Modelled from the spec: the class \<open>AsyncQueue\<close> (\<open>util/AsyncQueue.ts\<close>) is imported by
  \<open>readEventSourceStream.ts\<close> and is not among the sources. The spec gives it an ordered
  sequence of pending items and a terminal state (open, closed, closed-with-error).
\<close>

datatype 'e queue_status = Open | Closed | ClosedWithError 'e

record ('a, 'e) AsyncQueue =
  items :: "'a list"
  status :: "'e queue_status"

definition new_AsyncQueue :: "('a, 'e) AsyncQueue" where
  "new_AsyncQueue = \<lparr>items = [], status = Open\<rparr>"

text \<open>
  Modelled from the spec: \<open>push(item)\<close> appends to the tail; if the queue is already
  closed, it fails with \<open>QueueClosedError\<close>.
\<close>

definition push :: "'a \<Rightarrow> ('a, 'x js_error) AsyncQueue \<Rightarrow> 'x js_error + ('a, 'x js_error) AsyncQueue" where
  "push v q = (if status q = Open then Inr (q\<lparr>items := items q @ [v]\<rparr>) else Inl QueueClosedError)"

text \<open>
  Modelled from the spec: push with error closes the queue immediately in an error
  state, attaching the error; pending items are discarded.
\<close>

definition push_error :: "'e \<Rightarrow> ('a, 'e) AsyncQueue \<Rightarrow> ('a, 'e) AsyncQueue" where
  "push_error e q = q\<lparr>items := [], status := ClosedWithError e\<rparr>"

text \<open>
  Modelled from the spec: \<open>close()\<close> marks no-more-items; the items already queued
  stay; idempotent.
\<close>

definition close :: "('a, 'e) AsyncQueue \<Rightarrow> ('a, 'e) AsyncQueue" where
  "close q = (if status q = Open then q\<lparr>status := Closed\<rparr> else q)"

text \<open>
  Modelled from the spec: one request of the consumer (\<open>next()\<close> of the async iterator).
  It resolves with a buffered item if there is one; on an empty queue it signals the end
  of the sequence after \<open>close()\<close>, surfaces the error once after an error close, and
  otherwise stays pending until the producer acts again.
\<close>

datatype ('a, 'e) next_result = Item 'a | EndOfSequence | Failure 'e | Pending

definition next_item :: "('a, 'e) AsyncQueue \<Rightarrow> ('a, 'e) next_result \<times> ('a, 'e) AsyncQueue" where
  "next_item q =
     (case items q of
        v # vs \<Rightarrow> (Item v, q\<lparr>items := vs\<rparr>)
      | [] \<Rightarrow>
         (case status q of
            Open \<Rightarrow> (Pending, q)
          | Closed \<Rightarrow> (EndOfSequence, q)
          | ClosedWithError e \<Rightarrow> (Failure e, q\<lparr>status := Closed\<rparr>)))"

text \<open>
  The consumer's loop \<open>for await (const x of queue)\<close>, run once the producer has
  finished: the items it receives, and the signal that ends them. \<open>Pending\<close> as the last
  signal is a consumer that waits for ever.
\<close>

function consume :: "('a, 'e) AsyncQueue \<Rightarrow> 'a list \<times> ('a, 'e) next_result" where
  "consume q =
     (case next_item q of
        (Item v, q') \<Rightarrow> (case consume q' of (vs, r) \<Rightarrow> (v # vs, r))
      | (r, q') \<Rightarrow> ([], r))"
  by pat_completeness auto
termination
  by (relation "measure (\<lambda>q. length (items q))")
     (auto simp: next_item_def split: list.splits queue_status.splits)

section \<open>Server-sent events\<close>

text \<open>
  Modelled from the spec: one frame of the SSE Frame Decoder
  (\<open>util/streaming/parseEventSourceStream.ts\<close>, not among the sources). The reader uses
  its \<open>data\<close> field only.
\<close>

record frame =
  event :: "string option"
  data :: string
  id :: "string option"
  retryMs :: "nat option"

text \<open>
  What \<open>parseEventSourceStream({ stream })\<close> gives on a run that terminates: its promise
  is rejected, or it resolves to an async iterable that yields finitely many frames and
  then ends, normally or with a failure of the underlying read.
\<close>

datatype 'e stream_end = Done | ReadFailure 'e

datatype 'e event_source = SetupRejected 'e | EventStream "frame list" "'e stream_end"

section \<open>readEventSourceStream\<close>

text \<open>
  The state the reader works on: the output queue, and the calls it has made, in order
  (calls of the error handler with their argument, pushes, calls of \<open>close()\<close>).
\<close>

datatype ('a, 'e) effect = HandlerCalled 'e | Pushed 'a | CloseCalled

record ('a, 'e) run_state =
  queue :: "('a, 'e) AsyncQueue"
  effects :: "('a, 'e) effect list"

text \<open>\<open>errorHandler?.(error)\<close>: nothing happens when no handler was supplied.\<close>

definition call_handler ::
  "'e ErrorHandler option \<Rightarrow> 'e \<Rightarrow> ('a, 'e) run_state \<Rightarrow> 'e completion \<times> ('a, 'e) run_state" where
  "call_handler errorHandler err st =
     (case errorHandler of
        None \<Rightarrow> (Returns, st)
      | Some h \<Rightarrow> (h err, st\<lparr>effects := effects st @ [HandlerCalled err]\<rparr>))"

text \<open>\<open>queue.push(validationResult.data)\<close> and \<open>queue.close()\<close>.\<close>

definition queue_push ::
  "'a \<Rightarrow> ('a, 'x js_error) run_state \<Rightarrow> 'x js_error completion \<times> ('a, 'x js_error) run_state" where
  "queue_push v st =
     (case push v (queue st) of
        Inl e \<Rightarrow> (Throws e, st)
      | Inr q \<Rightarrow> (Returns, st\<lparr>queue := q, effects := effects st @ [Pushed v]\<rparr>))"

definition queue_close :: "('a, 'e) run_state \<Rightarrow> ('a, 'e) run_state" where
  "queue_close st = st\<lparr>queue := close (queue st), effects := effects st @ [CloseCalled]\<rparr>"

text \<open>
  The loop \<open>for await (const event of events) { ... }\<close> (lines 22 to 31).
  \<open>safeParseJSON({ text: event.data, schema })\<close> is the parameter \<open>safeParseJSON\<close>:
  \<open>Inl x\<close> is \<open>{ success: false, error: x }\<close>, \<open>Inr v\<close> is \<open>{ success: true, data: v }\<close>.
  The loop ends by returning, or by throwing what the handler, the push or the
  underlying read threw.
\<close>

fun for_await ::
  "(string \<Rightarrow> 'x + 'a) \<Rightarrow> 'x js_error ErrorHandler option \<Rightarrow> frame list \<Rightarrow> 'x js_error stream_end \<Rightarrow>
   ('a, 'x js_error) run_state \<Rightarrow> 'x js_error completion \<times> ('a, 'x js_error) run_state" where
  "for_await safeParseJSON errorHandler [] Done st = (Returns, st)"
| "for_await safeParseJSON errorHandler [] (ReadFailure e) st = (Throws e, st)"
| "for_await safeParseJSON errorHandler (ev # events) fin st =
     (case safeParseJSON (data ev) of
        Inl x \<Rightarrow>
          (case call_handler errorHandler (Err x) st of
             (Throws e, st') \<Rightarrow> (Throws e, st')
           | (Returns, st') \<Rightarrow> for_await safeParseJSON errorHandler events fin st')
      | Inr v \<Rightarrow>
          (case queue_push v st of
             (Throws e, st') \<Rightarrow> (Throws e, st')
           | (Returns, st') \<Rightarrow> for_await safeParseJSON errorHandler events fin st'))"

text \<open>
  The callback of \<open>.then\<close> (lines 20 to 37): the loop in \<open>try\<close>, the handler call in
  \<open>catch\<close>, \<open>queue.close()\<close> in \<open>finally\<close>. An error thrown in the \<open>catch\<close> block
  leaves the callback after the \<open>finally\<close> block has run.
\<close>

definition then_callback ::
  "(string \<Rightarrow> 'x + 'a) \<Rightarrow> 'x js_error ErrorHandler option \<Rightarrow> frame list \<Rightarrow> 'x js_error stream_end \<Rightarrow>
   ('a, 'x js_error) run_state \<Rightarrow> 'x js_error completion \<times> ('a, 'x js_error) run_state" where
  "then_callback safeParseJSON errorHandler events fin st =
     (case for_await safeParseJSON errorHandler events fin st of
        (Returns, st1) \<Rightarrow> (Returns, queue_close st1)
      | (Throws error, st1) \<Rightarrow>
          (case call_handler errorHandler error st1 of
             (c, st2) \<Rightarrow> (c, queue_close st2)))"

text \<open>
  The callback of \<open>.catch\<close> (lines 38 to 41): the handler call, then \<open>queue.close()\<close>,
  one statement after the other.
\<close>

definition catch_callback ::
  "'e ErrorHandler option \<Rightarrow> 'e \<Rightarrow> ('a, 'e) run_state \<Rightarrow> 'e completion \<times> ('a, 'e) run_state" where
  "catch_callback errorHandler error st =
     (case call_handler errorHandler error st of
        (Throws e, st1) \<Rightarrow> (Throws e, st1)
      | (Returns, st1) \<Rightarrow> (Returns, queue_close st1))"

text \<open>
  \<open>readEventSourceStream\<close>: the promise chain it starts on a new queue, run to its end.
  The result is how the chain settles (\<open>Throws\<close>: a rejection nobody handles) and the
  final state; the function itself has returned the queue at once.
\<close>

definition readEventSourceStream ::
  "(string \<Rightarrow> 'x + 'a) \<Rightarrow> 'x js_error ErrorHandler option \<Rightarrow> 'x js_error event_source \<Rightarrow>
   'x js_error completion \<times> ('a, 'x js_error) run_state" where
  "readEventSourceStream safeParseJSON errorHandler source =
     (let st0 = \<lparr>queue = new_AsyncQueue, effects = []\<rparr> in
      case source of
        SetupRejected error \<Rightarrow> catch_callback errorHandler error st0
      | EventStream events fin \<Rightarrow>
          (case then_callback safeParseJSON errorHandler events fin st0 of
             (Returns, st) \<Rightarrow> (Returns, st)
           | (Throws error, st) \<Rightarrow> catch_callback errorHandler error st))"

text \<open>What the consumer of the returned queue observes once the chain has settled.\<close>

definition observed ::
  "'e completion \<times> ('a, 'e) run_state \<Rightarrow> 'a list \<times> ('a, 'e) next_result" where
  "observed r = consume (queue (snd r))"

section \<open>Notions used to state the properties of the reader\<close>

text \<open>
  The values of the frames that validate, in the order of the source stream; the values
  pushed and the errors passed to the handler, read off the recorded calls.
\<close>

definition validated :: "(string \<Rightarrow> 'x + 'a) \<Rightarrow> frame list \<Rightarrow> 'a list" where
  "validated safeParseJSON events =
     concat (map (\<lambda>ev. case safeParseJSON (data ev) of Inl x \<Rightarrow> [] | Inr v \<Rightarrow> [v]) events)"

definition pushed_values :: "('a, 'e) effect list \<Rightarrow> 'a list" where
  "pushed_values efs = concat (map (\<lambda>ef. case ef of Pushed v \<Rightarrow> [v] | _ \<Rightarrow> []) efs)"

definition handler_calls :: "('a, 'e) effect list \<Rightarrow> 'e list" where
  "handler_calls efs = concat (map (\<lambda>ef. case ef of HandlerCalled e \<Rightarrow> [e] | _ \<Rightarrow> []) efs)"

definition handler_returns :: "'e ErrorHandler option \<Rightarrow> 'e \<Rightarrow> bool" where
  "handler_returns errorHandler e = (case errorHandler of None \<Rightarrow> True | Some h \<Rightarrow> h e = Returns)"

definition returns_on_invalid ::
  "(string \<Rightarrow> 'x + 'a) \<Rightarrow> 'x js_error ErrorHandler option \<Rightarrow> frame list \<Rightarrow> bool" where
  "returns_on_invalid safeParseJSON errorHandler events =
     list_all (\<lambda>ev. case safeParseJSON (data ev) of
                       Inl x \<Rightarrow> handler_returns errorHandler (Err x)
                     | Inr v \<Rightarrow> True) events"

definition frame_effects ::
  "(string \<Rightarrow> 'x + 'a) \<Rightarrow> 'x js_error ErrorHandler option \<Rightarrow> frame list \<Rightarrow> ('a, 'x js_error) effect list" where
  "frame_effects safeParseJSON errorHandler events =
     concat (map (\<lambda>ev. case safeParseJSON (data ev) of
                          Inl x \<Rightarrow> (case errorHandler of None \<Rightarrow> [] | Some h \<Rightarrow> [HandlerCalled (Err x)])
                        | Inr v \<Rightarrow> [Pushed v]) events)"

definition stream_completion :: "'e stream_end \<Rightarrow> 'e completion" where
  "stream_completion fin = (case fin of Done \<Rightarrow> Returns | ReadFailure e \<Rightarrow> Throws e)"

section \<open>Sample inputs\<close>

text \<open>
  A frame that carries the given \<open>data\<close> and nothing else, and a parser with a schema
  that accepts the text \<open>{"x":1}\<close> (the object with the one property \<open>x = 1\<close>) and
  nothing else. The concrete runs below use them.
\<close>

definition data_frame :: "string \<Rightarrow> frame" where
  "data_frame d = \<lparr>event = None, data = d, id = None, retryMs = None\<rparr>"

definition parse_x1 :: "string \<Rightarrow> string + (string \<times> int) list" where
  "parse_x1 t = (if t = ''{\"x\":1}'' then Inr [(''x'', 1)] else Inl (''not valid: '' @ t))"

text \<open>Two handlers: one that returns whatever it is given, one that rethrows it.\<close>

definition recording_handler :: "'e ErrorHandler" where
  "recording_handler e = Returns"

definition throwing_handler :: "'e ErrorHandler" where
  "throwing_handler e = Throws e"

section \<open>A consumer that reads while the reader runs\<close>

text \<open>
  The reader acts on the queue through the calls it records. \<open>replay\<close> carries one
  recorded call out on a queue (a handler call does not touch it; a push on a queue that
  is not open throws and leaves it as it is).
\<close>

definition replay :: "('a, 'x js_error) effect \<Rightarrow> ('a, 'x js_error) AsyncQueue \<Rightarrow> ('a, 'x js_error) AsyncQueue" where
  "replay ef q =
     (case ef of
        HandlerCalled e \<Rightarrow> q
      | Pushed v \<Rightarrow> (case push v q of Inl e \<Rightarrow> q | Inr q' \<Rightarrow> q')
      | CloseCalled \<Rightarrow> close q)"

text \<open>
  The consumer and the reader interleaved by a schedule: \<open>True\<close> lets the reader make its
  next call, \<open>False\<close> lets the consumer ask for the next item. A request that finds the
  open queue empty stays pending; the consumer is served at a later turn. When the
  schedule is used up the reader runs to its end and the consumer reads what is left.
\<close>

fun paced ::
  "bool list \<Rightarrow> ('a, 'x js_error) effect list \<Rightarrow> ('a, 'x js_error) AsyncQueue \<Rightarrow>
   'a list \<times> ('a, 'x js_error) next_result" where
  "paced schedule [] q = consume q"
| "paced [] (ef # efs) q = paced [] efs (replay ef q)"
| "paced (True # schedule) (ef # efs) q = paced schedule efs (replay ef q)"
| "paced (False # schedule) (ef # efs) q =
     (case next_item q of
        (Item v, q') \<Rightarrow> (case paced schedule (ef # efs) q' of (vs, r) \<Rightarrow> (v # vs, r))
      | (Pending, q') \<Rightarrow> paced schedule (ef # efs) q
      | (r, q') \<Rightarrow> ([], r))"

text \<open>The queue of a state is what the recorded calls make of a new queue.\<close>

definition replayed :: "('a, 'x js_error) run_state \<Rightarrow> bool" where
  "replayed st = (queue st = fold replay (effects st) new_AsyncQueue)"

section \<open>convertReadableStreamToAsyncIterator\<close>

text \<open>
  A \<open>ReadableStreamDefaultReader\<close> that terminates: the chunks it still holds, and how
  the stream ends after them (\<open>None\<close>: it closes; \<open>Some e\<close>: it fails with \<open>e\<close>).
  \<open>reads\<close> counts the calls of \<open>read()\<close>.
\<close>

record ('a, 'e) reader =
  pending :: "'a list"
  ending :: "'e option"
  reads :: nat

text \<open>
  \<open>await reader.read()\<close>: \<open>{ done: false, value }\<close>, \<open>{ done: true }\<close>, or a rejection.
\<close>

datatype ('a, 'e) read_result = Value 'a | StreamDone | ReadRejected 'e

definition read :: "('a, 'e) reader \<Rightarrow> ('a, 'e) read_result \<times> ('a, 'e) reader" where
  "read r =
     (case pending r of
        v # vs \<Rightarrow> (Value v, r\<lparr>pending := vs, reads := Suc (reads r)\<rparr>)
      | [] \<Rightarrow>
         (case ending r of
            None \<Rightarrow> (StreamDone, r\<lparr>reads := Suc (reads r)\<rparr>)
          | Some e \<Rightarrow> (ReadRejected e, r\<lparr>reads := Suc (reads r)\<rparr>)))"

text \<open>
  The generator object of the \<open>async function*\<close>: suspended (at its start or at the
  \<open>yield\<close>), or completed (after the \<open>break\<close>, or after the rejected \<open>await\<close> threw).
  Calling the generator function runs none of its body.
\<close>

datatype ('a, 'e) generator = Suspended "('a, 'e) reader" | Completed "('a, 'e) reader"

definition convertReadableStreamToAsyncIterator :: "('a, 'e) reader \<Rightarrow> ('a, 'e) generator" where
  "convertReadableStreamToAsyncIterator reader = Suspended reader"

text \<open>
  One \<open>next()\<close>: the body runs from where it is suspended to the next \<open>yield\<close> (one
  \<open>read()\<close> whose result is not done), to the \<open>break\<close>, or to the exception. A completed
  generator answers \<open>{ done: true }\<close> without running anything.
\<close>

definition iterator_next ::
  "('a, 'e) generator \<Rightarrow> ('a, 'e) next_result \<times> ('a, 'e) generator" where
  "iterator_next g =
     (case g of
        Completed r \<Rightarrow> (EndOfSequence, Completed r)
      | Suspended r \<Rightarrow>
         (case read r of
            (Value v, r') \<Rightarrow> (Item v, Suspended r')
          | (StreamDone, r') \<Rightarrow> (EndOfSequence, Completed r')
          | (ReadRejected e, r') \<Rightarrow> (Failure e, Completed r')))"

text \<open>The first \<open>n\<close> calls of \<open>next()\<close>: their results, and the generator after them.\<close>

fun next_n :: "nat \<Rightarrow> ('a, 'e) generator \<Rightarrow> ('a, 'e) next_result list \<times> ('a, 'e) generator" where
  "next_n 0 g = ([], g)"
| "next_n (Suc n) g =
     (case iterator_next g of
        (res, g') \<Rightarrow> (case next_n n g' of (rs, g'') \<Rightarrow> (res # rs, g'')))"

text \<open>
  A consumer's \<open>for await (const x of iterator)\<close>: it calls \<open>next()\<close> until the result is
  not an item. The values it received, the signal that ended them, the generator left.
\<close>

definition remaining :: "('a, 'e) generator \<Rightarrow> nat" where
  "remaining g = (case g of Suspended r \<Rightarrow> Suc (length (pending r)) | Completed r \<Rightarrow> 0)"

function iterate ::
  "('a, 'e) generator \<Rightarrow> 'a list \<times> ('a, 'e) next_result \<times> ('a, 'e) generator" where
  "iterate g =
     (case iterator_next g of
        (Item v, g') \<Rightarrow> (case iterate g' of (vs, r, g'') \<Rightarrow> (v # vs, r, g''))
      | (r, g') \<Rightarrow> ([], r, g'))"
  by pat_completeness auto
termination
  by (relation "measure remaining")
     (auto simp: remaining_def iterator_next_def read_def
           split: generator.splits list.splits option.splits)

section \<open>CohereTextEmbeddingModel\<close>

subsection \<open>Objects, the heap and asynchronous calls\<close>

text \<open>
  The values a settings object holds: a missing or \<open>undefined\<close> property, a string, a
  function (\<open>retry\<close>, \<open>throttle\<close>). An object maps property names to values; a key
  that maps to \<open>Undefined\<close> is an own property whose value is \<open>undefined\<close>, which
  \<open>Object.assign\<close> copies like any other.
\<close>

datatype 'f jsval = Undefined | Str string | Fn 'f

type_synonym 'f obj = "string \<rightharpoonup> 'f jsval"

definition property :: "'f obj \<Rightarrow> string \<Rightarrow> 'f jsval" where
  "property ob k = (case ob k of None \<Rightarrow> Undefined | Some v \<Rightarrow> v)"

text \<open>
  Objects live in a heap and are held by reference, so that a call can be seen to
  leave an object alone. \<open>next_ref\<close> is the reference the next new object gets.
\<close>

record 'f heap =
  objects :: "nat \<rightharpoonup> 'f obj"
  next_ref :: nat



text \<open>
  The errors of this class, and an asynchronous call: run in a state \<open>'w\<close> of the world
  outside (network, timers), it settles with a rejection (\<open>Inl\<close>) or a response
  (\<open>Inr\<close>) and leaves a new state. A retry or throttle function takes such a call and
  gives one.
\<close>

datatype 'x cohere_error =
    TextsPerCallError string
  | NoApiKeyError string
  | TypeError string
  | ApiError 'x

type_synonym ('x, 'r, 'w) async = "'w \<Rightarrow> ('x cohere_error + 'r) \<times> 'w"

type_synonym ('x, 'r, 'w) wrapper = "('x, 'r, 'w) async \<Rightarrow> ('x, 'r, 'w) async"

type_synonym ('x, 'r, 'w) settings = "('x, 'r, 'w) wrapper obj"

subsection \<open>What the class imports\<close>

text \<open>
  The arguments of \<open>callCohereEmbeddingAPI\<close> as the object literal of lines 135 to 140
  lists them: \<open>abortSignal\<close>, \<open>apiKey\<close>, \<open>texts\<close>, then the spread settings, whose keys
  override the three before them.
\<close>

record ('x, 'r, 'w) call_args =
  arg_abortSignal :: "nat option"
  arg_apiKey :: "('x, 'r, 'w) wrapper jsval"
  arg_texts :: "string list"
  arg_settings :: "('x, 'r, 'w) settings"

text \<open>
  The surroundings of a call: the environment variable \<open>COHERE_API_KEY\<close>, the functions
  that \<open>retryWithExponentialBackoff()\<close> and \<open>throttleUnlimitedConcurrency()\<close> return, and
  the network call \<open>callCohereEmbeddingAPI\<close> (lines 182 to 211 post the request with
  \<open>postJsonToApi\<close>). The retry and throttle modules and \<open>postJsonToApi\<close> are not among the
  sources: the three are parameters, and nothing is assumed of them.
\<close>

record ('x, 'r, 'w) environment =
  COHERE_API_KEY :: "string option"
  retryWithExponentialBackoff :: "('x, 'r, 'w) wrapper"
  throttleUnlimitedConcurrency :: "('x, 'r, 'w) wrapper"
  callCohereEmbeddingAPI :: "('x, 'r, 'w) call_args \<Rightarrow> ('x, 'r, 'w) async"

text \<open>\<open>context?: RunContext\<close> with its optional \<open>abortSignal\<close> (an opaque signal).\<close>

record RunContext =
  abortSignal :: "nat option"

subsection \<open>The table of models\<close>

record table_entry =
  entry_maxTokens :: nat
  entry_embeddingDimensions :: nat

definition COHERE_TEXT_EMBEDDING_MODELS :: "string \<rightharpoonup> table_entry" where
  "COHERE_TEXT_EMBEDDING_MODELS =
     [''embed-english-light-v2.0'' \<mapsto> \<lparr>entry_maxTokens = 4096, entry_embeddingDimensions = 1024\<rparr>,
      ''embed-english-v2.0'' \<mapsto> \<lparr>entry_maxTokens = 4096, entry_embeddingDimensions = 4096\<rparr>,
      ''embed-multilingual-v2.0'' \<mapsto> \<lparr>entry_maxTokens = 4096, entry_embeddingDimensions = 768\<rparr>]"

text \<open>
  \<open>COHERE_TEXT_EMBEDDING_MODELS[this.modelName]\<close>. The table is an object literal, so
  the property read also finds what the object inherits from \<open>Object.prototype\<close>: for
  one of these names the read gives a function (or, for \<open>__proto__\<close>, the prototype
  object), not \<open>undefined\<close>. For any other value the read gives \<open>undefined\<close>: neither
  \<open>"undefined"\<close> nor the text of a function is a key of the table or of the prototype.
\<close>

definition Object_prototype_members :: "string list" where
  "Object_prototype_members =
     [''constructor'', ''hasOwnProperty'', ''isPrototypeOf'', ''propertyIsEnumerable'',
      ''toLocaleString'', ''toString'', ''valueOf'', ''__proto__'',
      ''__defineGetter__'', ''__defineSetter__'', ''__lookupGetter__'', ''__lookupSetter__'']"

datatype table_value = Entry table_entry | Inherited | NotFound

definition table_lookup :: "'f jsval \<Rightarrow> table_value" where
  "table_lookup modelName =
     (case modelName of
        Str n \<Rightarrow>
          (case COHERE_TEXT_EMBEDDING_MODELS n of
             Some entry \<Rightarrow> Entry entry
           | None \<Rightarrow> if n \<in> set Object_prototype_members then Inherited else NotFound)
      | _ \<Rightarrow> NotFound)"

text \<open>
  \<open>.maxTokens\<close> and \<open>.embeddingDimensions\<close> of what the table gave: the number of an
  entry, \<open>undefined\<close> (here \<open>None\<close>) of an inherited member, which has no such
  property, and a \<open>TypeError\<close> when the table gave \<open>undefined\<close>.
\<close>

definition read_maxTokens :: "table_value \<Rightarrow> string + nat option" where
  "read_maxTokens tv =
     (case tv of
        Entry entry \<Rightarrow> Inr (Some (entry_maxTokens entry))
      | Inherited \<Rightarrow> Inr None
      | NotFound \<Rightarrow> Inl ''Cannot read properties of undefined (reading maxTokens)'')"

definition read_embeddingDimensions :: "table_value \<Rightarrow> string + nat option" where
  "read_embeddingDimensions tv =
     (case tv of
        Entry entry \<Rightarrow> Inr (Some (entry_embeddingDimensions entry))
      | Inherited \<Rightarrow> Inr None
      | NotFound \<Rightarrow> Inl ''Cannot read properties of undefined (reading embeddingDimensions)'')"

subsection \<open>The class\<close>

text \<open>
  An instance: the reference to its settings object (the constructor of the base class
  \<open>AbstractTextEmbeddingModel\<close>, which is not among the sources, is taken to keep the
  object it is given, as the getter \<open>modelName\<close> reads it back), the two limits read from
  the table (\<open>None\<close> is \<open>undefined\<close>), and the tokenizer, of which the model keeps the two arguments of
  \<open>CohereTokenizer.forModel\<close>.
\<close>

record ('x, 'r, 'w) cohere_tokenizer =
  tokenizer_apiKey :: "('x, 'r, 'w) wrapper jsval"
  tokenizer_model :: "('x, 'r, 'w) wrapper jsval"

record ('x, 'r, 'w) CohereTextEmbeddingModel =
  settings :: nat
  maxTokens :: "nat option"
  embeddingDimensions :: "nat option"
  tokenizer :: "('x, 'r, 'w) cohere_tokenizer"

definition maxTextsPerCall :: nat where
  "maxTextsPerCall = 96"

text \<open>
  The getter \<open>apiKey\<close> (lines 99 to 109): \<open>this.settings.apiKey ?? process.env.COHERE_API_KEY\<close>,
  and the error when both are missing.
\<close>

definition apiKey ::
  "('x, 'r, 'w) environment \<Rightarrow> ('x, 'r, 'w) settings \<Rightarrow> 'x cohere_error + ('x, 'r, 'w) wrapper jsval" where
  "apiKey env s =
     (case property s ''apiKey'' of
        Undefined \<Rightarrow>
          (case COHERE_API_KEY env of
             None \<Rightarrow> Inl (NoApiKeyError
               ''No Cohere API key provided. Pass an API key to the constructor or set the COHERE_API_KEY environment variable.'')
           | Some k \<Rightarrow> Inr (Str k))
      | v \<Rightarrow> Inr v)"

text \<open>The getters \<open>retry\<close> and \<open>throttle\<close> (lines 111 to 117).\<close>

definition retry :: "('x, 'r, 'w) environment \<Rightarrow> ('x, 'r, 'w) settings \<Rightarrow> ('x, 'r, 'w) wrapper jsval" where
  "retry env s =
     (case property s ''retry'' of Undefined \<Rightarrow> Fn (retryWithExponentialBackoff env) | v \<Rightarrow> v)"

definition throttle :: "('x, 'r, 'w) environment \<Rightarrow> ('x, 'r, 'w) settings \<Rightarrow> ('x, 'r, 'w) wrapper jsval" where
  "throttle env s =
     (case property s ''throttle'' of Undefined \<Rightarrow> Fn (throttleUnlimitedConcurrency env) | v \<Rightarrow> v)"

text \<open>Calling a value: a value that is not a function cannot be called.\<close>

definition call :: "('x, 'r, 'w) wrapper jsval \<Rightarrow> ('x, 'r, 'w) wrapper" where
  "call f operation w =
     (case f of Fn g \<Rightarrow> g operation w | _ \<Rightarrow> (Inl (TypeError ''not a function''), w))"

text \<open>
  The constructor (lines 71 to 86), statement by statement: \<open>maxTokens\<close> from the table
  (a \<open>TypeError\<close> when the table has nothing for the model name), the tokenizer, for
  which the API key is read, then \<open>embeddingDimensions\<close> from the table.
\<close>

definition new_CohereTextEmbeddingModel ::
  "('x, 'r, 'w) environment \<Rightarrow> ('x, 'r, 'w) wrapper heap \<Rightarrow> nat \<Rightarrow>
   'x cohere_error + ('x, 'r, 'w) CohereTextEmbeddingModel" where
  "new_CohereTextEmbeddingModel env h settings_ref =
     (case objects h settings_ref of
        None \<Rightarrow> Inl (TypeError ''Cannot read properties of undefined (reading model)'')
      | Some s \<Rightarrow>
         (case read_maxTokens (table_lookup (property s ''model'')) of
            Inl msg \<Rightarrow> Inl (TypeError msg)
          | Inr max_tokens \<Rightarrow>
             (case apiKey env s of
                Inl err \<Rightarrow> Inl err
              | Inr key \<Rightarrow>
                 (case read_embeddingDimensions (table_lookup (property s ''model'')) of
                    Inl msg \<Rightarrow> Inl (TypeError msg)
                  | Inr dimensions \<Rightarrow>
                     Inr \<lparr>settings = settings_ref,
                          maxTokens = max_tokens,
                          embeddingDimensions = dimensions,
                          tokenizer = \<lparr>tokenizer_apiKey = key,
                                       tokenizer_model = property s ''model''\<rparr>\<rparr>))))"

text \<open>
  The decimal form of a number, for the template string of the error message.
\<close>

definition digit :: "nat \<Rightarrow> char" where
  "digit n = ''0123456789'' ! n"

function decimal :: "nat \<Rightarrow> string" where
  "decimal n = (if n < 10 then [digit n] else decimal (n div 10) @ [digit (n mod 10)])"
  by pat_completeness auto
termination
  by (relation "measure (\<lambda>n. n)") auto

text \<open>
  \<open>callAPI\<close> (lines 123 to 143). The guard comes first; past it, the call is the retry
  function applied to the throttle function applied to the network call. The API key is
  read inside the innermost function, when that runs.
\<close>

definition callAPI ::
  "('x, 'r, 'w) environment \<Rightarrow> ('x, 'r, 'w) wrapper heap \<Rightarrow> ('x, 'r, 'w) CohereTextEmbeddingModel \<Rightarrow>
   string list \<Rightarrow> RunContext option \<Rightarrow> ('x, 'r, 'w) async" where
  "callAPI env h this texts context w =
     (if length texts > maxTextsPerCall then
        (Inl (TextsPerCallError (''The Cohere embedding API only supports '' @ decimal maxTextsPerCall @
                '' texts per API call.'')), w)
      else
        (case objects h (settings this) of
           None \<Rightarrow> (Inl (TypeError ''Cannot read properties of undefined (reading retry)''), w)
         | Some s \<Rightarrow>
             call (retry env s)
               (\<lambda>w1. call (throttle env s)
                  (\<lambda>w2. case apiKey env s of
                           Inl err \<Rightarrow> (Inl err, w2)
                         | Inr key \<Rightarrow>
                             callCohereEmbeddingAPI env
                               \<lparr>arg_abortSignal = (case context of None \<Rightarrow> None | Some c \<Rightarrow> abortSignal c),
                                arg_apiKey = key, arg_texts = texts, arg_settings = s\<rparr> w2)
                  w1)
               w))"


subsection \<open>Sample inputs\<close>

text \<open>
  An environment whose retry and throttle functions run the call once and whose network
  call answers with the texts it was sent and counts the call; a heap with one settings
  object; and the instance that the constructor builds from that object.
\<close>

definition sample_environment :: "(string, string list, nat) environment" where
  "sample_environment =
     \<lparr>COHERE_API_KEY = Some ''key-from-env'',
      retryWithExponentialBackoff = (\<lambda>operation. operation),
      throttleUnlimitedConcurrency = (\<lambda>operation. operation),
      callCohereEmbeddingAPI = (\<lambda>args w. (Inr (arg_texts args), Suc w))\<rparr>"

definition sample_heap :: "(string, string list, nat) wrapper heap" where
  "sample_heap =
     \<lparr>objects = [0 \<mapsto> [''model'' \<mapsto> Str ''embed-english-v2.0'', ''apiKey'' \<mapsto> Str ''key-in-settings'']],
      next_ref = 1\<rparr>"

definition sample_model :: "(string, string list, nat) CohereTextEmbeddingModel" where
  "sample_model =
     \<lparr>settings = 0, maxTokens = Some 4096, embeddingDimensions = Some 4096,
      tokenizer = \<lparr>tokenizer_apiKey = Str ''key-in-settings'', tokenizer_model = Str ''embed-english-v2.0''\<rparr>\<rparr>"

section \<open>The queue as the consumer sees it\<close>

declare consume.simps [simp del]

lemma consume_Cons: "items q = v # vs \<Longrightarrow> consume q = (case consume (q\<lparr>items := vs\<rparr>) of (xs, r) \<Rightarrow> (v # xs, r))"
  by (subst consume.simps) (simp add: next_item_def)

lemma consume_Nil: "items q = [] \<Longrightarrow> consume q = ([], fst (next_item q))"
  by (subst consume.simps) (simp add: next_item_def split: queue_status.splits)

lemma consume_Closed: "status q = Closed \<Longrightarrow> consume q = (items q, EndOfSequence)"
proof (induction "items q" arbitrary: q)
  case Nil
  then show ?case by (simp add: consume_Nil next_item_def)
next
  case (Cons v vs)
  from Cons(2) have eq: "items q = v # vs" by simp
  have "consume (q\<lparr>items := vs\<rparr>) = (vs, EndOfSequence)"
    using Cons(1)[of "q\<lparr>items := vs\<rparr>"] Cons(3) by simp
  then show ?case using eq by (simp add: consume_Cons)
qed

lemma consume_Open: "status q = Open \<Longrightarrow> consume q = (items q, Pending)"
proof (induction "items q" arbitrary: q)
  case Nil
  then show ?case by (simp add: consume_Nil next_item_def)
next
  case (Cons v vs)
  from Cons(2) have eq: "items q = v # vs" by simp
  have "consume (q\<lparr>items := vs\<rparr>) = (vs, Pending)"
    using Cons(1)[of "q\<lparr>items := vs\<rparr>"] Cons(3) by simp
  then show ?case using eq by (simp add: consume_Cons)
qed

lemma consume_Error: "status q = ClosedWithError e \<Longrightarrow> consume q = (items q, Failure e)"
proof (induction "items q" arbitrary: q)
  case Nil
  then show ?case by (simp add: consume_Nil next_item_def)
next
  case (Cons v vs)
  from Cons(2) have eq: "items q = v # vs" by simp
  have "consume (q\<lparr>items := vs\<rparr>) = (vs, Failure e)"
    using Cons(1)[of "q\<lparr>items := vs\<rparr>"] Cons(3) by simp
  then show ?case using eq by (simp add: consume_Cons)
qed

text \<open>
  What an error close would give the consumer: the error, and none of the items that were
  pending. The reader never makes this call.
\<close>

lemma consume_push_error: "consume (push_error e q) = ([], Failure e)"
  by (simp add: consume_Error push_error_def)

section \<open>The read loop\<close>

lemma for_await_returns:
  "status (queue st) = Open \<Longrightarrow> returns_on_invalid p eh fs \<Longrightarrow>
   for_await p eh fs fin st =
     (stream_completion fin,
      st\<lparr>queue := (queue st)\<lparr>items := items (queue st) @ validated p fs\<rparr>,
         effects := effects st @ frame_effects p eh fs\<rparr>)"
proof (induction fs arbitrary: st)
  case Nil
  then show ?case
    by (cases fin) (simp_all add: validated_def frame_effects_def stream_completion_def)
next
  case (Cons ev fs)
  show ?case
  proof (cases "p (data ev)")
    case (Inl x)
    with Cons.prems have hr: "handler_returns eh (Err x)" and rest: "returns_on_invalid p eh fs"
      by (simp_all add: returns_on_invalid_def)
    define st' where "st' = st\<lparr>effects := effects st @ (case eh of None \<Rightarrow> [] | Some h \<Rightarrow> [HandlerCalled (Err x)])\<rparr>"
    have st': "call_handler eh (Err x) st = (Returns, st')"
      using hr by (cases eh) (simp_all add: call_handler_def handler_returns_def st'_def)
    have q: "queue st' = queue st"
      and e: "effects st' = effects st @ (case eh of None \<Rightarrow> [] | Some h \<Rightarrow> [HandlerCalled (Err x)])"
      by (simp_all add: st'_def)
    have "for_await p eh (ev # fs) fin st = for_await p eh fs fin st'"
      using Inl st' by simp
    also have "\<dots> = (stream_completion fin,
      st'\<lparr>queue := (queue st')\<lparr>items := items (queue st') @ validated p fs\<rparr>,
         effects := effects st' @ frame_effects p eh fs\<rparr>)"
      using Cons.IH[of st'] Cons.prems(1) q rest by simp
    finally show ?thesis
      using Inl q e st' by (cases eh) (simp_all add: validated_def frame_effects_def call_handler_def)
  next
    case (Inr v)
    with Cons.prems have rest: "returns_on_invalid p eh fs"
      by (simp add: returns_on_invalid_def)
    define st' where "st' = st\<lparr>queue := (queue st)\<lparr>items := items (queue st) @ [v]\<rparr>, effects := effects st @ [Pushed v]\<rparr>"
    have qp: "queue_push v st = (Returns, st')"
      using Cons.prems(1) by (simp add: queue_push_def push_def st'_def)
    have "for_await p eh (ev # fs) fin st = for_await p eh fs fin st'"
      using Inr qp by simp
    also have "\<dots> = (stream_completion fin,
      st'\<lparr>queue := (queue st')\<lparr>items := items (queue st') @ validated p fs\<rparr>,
         effects := effects st' @ frame_effects p eh fs\<rparr>)"
      using Cons.IH[of st'] Cons.prems(1) rest by (simp add: st'_def)
    finally show ?thesis
      using Inr by (simp add: validated_def frame_effects_def st'_def)
  qed
qed

lemma for_await_invariant:
  "status (queue st) = Open \<Longrightarrow> for_await p eh fs fin st = (c, st') \<Longrightarrow>
   status (queue st') = Open \<and>
   (\<exists>ys. prefix ys (validated p fs) \<and> items (queue st') = items (queue st) @ ys \<and>
         pushed_values (effects st') = pushed_values (effects st) @ ys)"
proof (induction fs arbitrary: st)
  case Nil
  then show ?case by (cases fin) auto
next
  case (Cons ev fs)
  show ?case
  proof (cases "p (data ev)")
    case (Inl x)
    obtain c1 st1 where ch: "call_handler eh (Err x) st = (c1, st1)" by fastforce
    then have q1: "queue st1 = queue st" and e1: "pushed_values (effects st1) = pushed_values (effects st)"
      by (auto simp: call_handler_def pushed_values_def split: option.splits)
    have v: "validated p (ev # fs) = validated p fs" using Inl by (simp add: validated_def)
    show ?thesis
    proof (cases c1)
      case Returns
      then have "for_await p eh fs fin st1 = (c, st')" using Cons.prems(2) Inl ch by simp
      from Cons.IH[OF _ this] Cons.prems(1) q1 e1 v show ?thesis by simp
    next
      case (Throws e)
      then have "st' = st1" using Cons.prems(2) Inl ch by simp
      then show ?thesis using q1 e1 Cons.prems(1) by simp
    qed
  next
    case (Inr v)
    define st1 where "st1 = st\<lparr>queue := (queue st)\<lparr>items := items (queue st) @ [v]\<rparr>, effects := effects st @ [Pushed v]\<rparr>"
    have qp: "queue_push v st = (Returns, st1)"
      using Cons.prems(1) by (simp add: queue_push_def push_def st1_def)
    then have fa: "for_await p eh fs fin st1 = (c, st')" using Cons.prems(2) Inr by simp
    have open1: "status (queue st1) = Open" using Cons.prems(1) by (simp add: st1_def)
    from Cons.IH[OF open1 fa] obtain ys where
      ys: "status (queue st') = Open" "prefix ys (validated p fs)"
          "items (queue st') = items (queue st1) @ ys"
          "pushed_values (effects st') = pushed_values (effects st1) @ ys" by blast
    have v: "validated p (ev # fs) = v # validated p fs" using Inr by (simp add: validated_def)
    have "prefix (v # ys) (validated p (ev # fs))" using ys(2) v by simp
    moreover have "items (queue st') = items (queue st) @ (v # ys)" using ys(3) by (simp add: st1_def)
    moreover have "pushed_values (effects st') = pushed_values (effects st) @ (v # ys)"
      using ys(4) by (simp add: st1_def pushed_values_def)
    ultimately show ?thesis using ys(1) by blast
  qed
qed

section \<open>Whole runs of the reader\<close>

lemma call_handler_queue: "call_handler eh e st = (c, st') \<Longrightarrow> queue st' = queue st"
  by (auto simp: call_handler_def split: option.splits)

lemma call_handler_pushed:
  "call_handler eh e st = (c, st') \<Longrightarrow> pushed_values (effects st') = pushed_values (effects st)"
  by (auto simp: call_handler_def pushed_values_def split: option.splits)

lemma call_handler_returns:
  "handler_returns eh e \<Longrightarrow>
   call_handler eh e st =
     (Returns, st\<lparr>effects := effects st @ (case eh of None \<Rightarrow> [] | Some h \<Rightarrow> [HandlerCalled e])\<rparr>)"
  by (cases eh) (simp_all add: call_handler_def handler_returns_def)

lemma status_queue_close:
  "status (queue st) = Open \<or> status (queue st) = Closed \<Longrightarrow> status (queue (queue_close st)) = Closed"
  by (auto simp: queue_close_def close_def)

lemma items_queue_close: "items (queue (queue_close st)) = items (queue st)"
  by (simp add: queue_close_def close_def)

lemma pushed_queue_close: "pushed_values (effects (queue_close st)) = pushed_values (effects st)"
  by (simp add: queue_close_def pushed_values_def)

lemma then_callback_closed:
  assumes "status (queue st) = Open" and "then_callback p eh fs fin st = (c, st')"
  shows "status (queue st') = Closed"
    and "\<exists>ys. prefix ys (validated p fs) \<and> items (queue st') = items (queue st) @ ys \<and>
              pushed_values (effects st') = pushed_values (effects st) @ ys"
proof -
  obtain c1 st1 where fa: "for_await p eh fs fin st = (c1, st1)" by fastforce
  from for_await_invariant[OF assms(1) fa] obtain ys where
    o1: "status (queue st1) = Open" and
    ys: "prefix ys (validated p fs)" "items (queue st1) = items (queue st) @ ys"
        "pushed_values (effects st1) = pushed_values (effects st) @ ys" by blast
  obtain st2 where st2: "st' = queue_close st2" "queue st2 = queue st1"
      "pushed_values (effects st2) = pushed_values (effects st1)"
  proof (cases c1)
    case Returns
    then have "st' = queue_close st1" using assms(2) fa by (simp add: then_callback_def)
    then show ?thesis using that by blast
  next
    case (Throws e)
    obtain c2 s2 where ch: "call_handler eh e st1 = (c2, s2)" by fastforce
    then have "st' = queue_close s2" using assms(2) fa Throws by (simp add: then_callback_def)
    then show ?thesis using that call_handler_queue[OF ch] call_handler_pushed[OF ch] by blast
  qed
  show "status (queue st') = Closed"
    using st2 o1 by (simp add: status_queue_close)
  show "\<exists>ys. prefix ys (validated p fs) \<and> items (queue st') = items (queue st) @ ys \<and>
              pushed_values (effects st') = pushed_values (effects st) @ ys"
    using st2 ys by (auto simp: items_queue_close pushed_queue_close)
qed

lemma catch_callback_closed:
  assumes "status (queue st) = Closed" and "catch_callback eh e st = (c, st')"
  shows "queue st' = queue st" and "pushed_values (effects st') = pushed_values (effects st)"
proof -
  obtain c1 st1 where ch: "call_handler eh e st = (c1, st1)" by fastforce
  have q1: "queue st1 = queue st" and p1: "pushed_values (effects st1) = pushed_values (effects st)"
    using call_handler_queue[OF ch] call_handler_pushed[OF ch] by simp_all
  have "st' = st1 \<or> st' = queue_close st1"
    using assms(2) ch by (cases c1) (auto simp: catch_callback_def)
  then show "queue st' = queue st" and "pushed_values (effects st') = pushed_values (effects st)"
    using q1 p1 assms(1) by (auto simp: queue_close_def close_def pushed_values_def)
qed

text \<open>Every run over an event stream, whatever the handler does.\<close>

lemma stream_run_closed:
  assumes r: "r = readEventSourceStream p eh (EventStream fs fin)"
  shows "status (queue (snd r)) = Closed"
    and "items (queue (snd r)) = pushed_values (effects (snd r))"
    and "prefix (items (queue (snd r))) (validated p fs)"
proof -
  let ?st0 = "\<lparr>queue = new_AsyncQueue, effects = []\<rparr> :: ('b, 'a js_error) run_state"
  have o0: "status (queue ?st0) = Open" by (simp add: new_AsyncQueue_def)
  obtain c1 st1 where tc: "then_callback p eh fs fin ?st0 = (c1, st1)" by fastforce
  from then_callback_closed[OF o0 tc] obtain ys where
    c1: "status (queue st1) = Closed" and
    ys: "prefix ys (validated p fs)" "items (queue st1) = ys" "pushed_values (effects st1) = ys"
    by (auto simp: new_AsyncQueue_def pushed_values_def)
  have "queue (snd r) = queue st1 \<and> pushed_values (effects (snd r)) = pushed_values (effects st1)"
  proof (cases c1)
    case Returns
    then show ?thesis using tc by (simp add: r readEventSourceStream_def)
  next
    case (Throws e)
    obtain c2 st2 where cc: "catch_callback eh e st1 = (c2, st2)" by fastforce
    then have "snd r = st2" using tc Throws by (simp add: r readEventSourceStream_def)
    then show ?thesis using catch_callback_closed[OF c1 cc] by simp
  qed
  then show "status (queue (snd r)) = Closed"
    and "items (queue (snd r)) = pushed_values (effects (snd r))"
    and "prefix (items (queue (snd r))) (validated p fs)"
    using c1 ys by simp_all
qed

lemma stream_run_returns:
  assumes "returns_on_invalid p eh fs"
  shows "readEventSourceStream p eh (EventStream fs Done) =
     (Returns, \<lparr>queue = \<lparr>items = validated p fs, status = Closed\<rparr>,
                effects = frame_effects p eh fs @ [CloseCalled]\<rparr>)"
proof -
  let ?st0 = "\<lparr>queue = new_AsyncQueue, effects = []\<rparr> :: ('b, 'a js_error) run_state"
  have "for_await p eh fs Done ?st0 =
     (Returns, ?st0\<lparr>queue := (queue ?st0)\<lparr>items := items (queue ?st0) @ validated p fs\<rparr>,
                   effects := effects ?st0 @ frame_effects p eh fs\<rparr>)"
    using for_await_returns[of ?st0 p eh fs Done] assms
    by (simp add: new_AsyncQueue_def stream_completion_def)
  then show ?thesis
    by (simp add: readEventSourceStream_def then_callback_def queue_close_def close_def new_AsyncQueue_def)
qed

lemma stream_run_failure:
  assumes "returns_on_invalid p eh fs" and "handler_returns eh e"
  shows "readEventSourceStream p eh (EventStream fs (ReadFailure e)) =
     (Returns, \<lparr>queue = \<lparr>items = validated p fs, status = Closed\<rparr>,
                effects = frame_effects p eh fs @
                          (case eh of None \<Rightarrow> [] | Some h \<Rightarrow> [HandlerCalled e]) @ [CloseCalled]\<rparr>)"
proof -
  let ?st0 = "\<lparr>queue = new_AsyncQueue, effects = []\<rparr> :: ('b, 'a js_error) run_state"
  have "for_await p eh fs (ReadFailure e) ?st0 =
     (Throws e, ?st0\<lparr>queue := (queue ?st0)\<lparr>items := items (queue ?st0) @ validated p fs\<rparr>,
                   effects := effects ?st0 @ frame_effects p eh fs\<rparr>)"
    using for_await_returns[of ?st0 p eh fs "ReadFailure e"] assms
    by (simp add: new_AsyncQueue_def stream_completion_def)
  then show ?thesis
    by (simp add: readEventSourceStream_def then_callback_def queue_close_def close_def
        new_AsyncQueue_def call_handler_returns[OF assms(2)])
qed

lemma setup_run:
  assumes "handler_returns eh e"
  shows "readEventSourceStream p eh (SetupRejected e) =
     (Returns, \<lparr>queue = \<lparr>items = [], status = Closed\<rparr>,
                effects = (case eh of None \<Rightarrow> [] | Some h \<Rightarrow> [HandlerCalled e]) @ [CloseCalled]\<rparr>)"
  by (simp add: readEventSourceStream_def catch_callback_def queue_close_def close_def
        new_AsyncQueue_def call_handler_returns[OF assms])

lemma observed_stream_run:
  assumes "r = readEventSourceStream p eh (EventStream fs fin)"
  shows "observed r = (pushed_values (effects (snd r)), EndOfSequence)"
  using stream_run_closed[OF assms] by (simp add: observed_def consume_Closed)

lemma never_error_state:
  fixes p :: "string \<Rightarrow> 'x + 'a"
  shows "status (queue (snd (readEventSourceStream p eh source))) \<noteq> ClosedWithError e'"
proof (cases source)
  case (SetupRejected e)
  obtain c st where ch: "call_handler eh e
      (\<lparr>queue = new_AsyncQueue, effects = []\<rparr> :: ('a, 'x js_error) run_state) = (c, st)"
    by fastforce
  from call_handler_queue[OF ch] have "status (queue st) = Open" by (simp add: new_AsyncQueue_def)
  then show ?thesis using SetupRejected ch
    by (cases c) (auto simp: readEventSourceStream_def catch_callback_def queue_close_def close_def)
next
  case (EventStream fs fin)
  then show ?thesis using stream_run_closed(1)[OF refl, of p eh fs fin] by simp
qed

lemma subseq_validated: "subseq (map Inr (validated p fs)) (map (\<lambda>ev. p (data ev)) fs)"
proof (induction fs)
  case Nil
  then show ?case by (simp add: validated_def)
next
  case (Cons ev fs)
  then show ?case
    by (cases "p (data ev)") (auto simp: validated_def)
qed

lemma close_called_on_stream:
  fixes p :: "string \<Rightarrow> 'x + 'a"
  shows "CloseCalled \<in> set (effects (snd (readEventSourceStream p eh (EventStream fs fin))))"
proof -
  let ?st0 = "\<lparr>queue = new_AsyncQueue, effects = []\<rparr> :: ('a, 'x js_error) run_state"
  have cc: "CloseCalled \<in> set (effects s) \<Longrightarrow> catch_callback eh e s = (c, s') \<Longrightarrow> CloseCalled \<in> set (effects s')"
    for s s' :: "('a, 'x js_error) run_state" and e c
    by (auto simp: catch_callback_def call_handler_def queue_close_def
        split: option.splits completion.splits)
  obtain c1 st1 where tc: "then_callback p eh fs fin ?st0 = (c1, st1)" by fastforce
  then have in1: "CloseCalled \<in> set (effects st1)"
    by (auto simp: then_callback_def queue_close_def split: prod.splits completion.splits)
  show ?thesis
  proof (cases c1)
    case Returns
    then show ?thesis using tc in1 by (simp add: readEventSourceStream_def)
  next
    case (Throws e)
    obtain c2 st2 where c2: "catch_callback eh e st1 = (c2, st2)" by fastforce
    then show ?thesis using tc Throws cc[OF in1 c2] by (simp add: readEventSourceStream_def)
  qed
qed

lemma stream_run_items:
  fixes p :: "string \<Rightarrow> 'x + 'a"
  assumes roi: "returns_on_invalid p eh fs"
  shows "items (queue (snd (readEventSourceStream p eh (EventStream fs fin)))) = validated p fs"
proof (cases fin)
  case Done
  then show ?thesis using roi by (simp add: stream_run_returns)
next
  case (ReadFailure e)
  let ?st0 = "\<lparr>queue = new_AsyncQueue, effects = []\<rparr> :: ('a, 'x js_error) run_state"
  let ?r = "readEventSourceStream p eh (EventStream fs fin)"
  have fa: "for_await p eh fs (ReadFailure e) ?st0 =
     (Throws e, \<lparr>queue = \<lparr>items = validated p fs, status = Open\<rparr>,
                 effects = frame_effects p eh fs\<rparr>)"
    using for_await_returns[of ?st0 p eh fs "ReadFailure e"] roi
    by (simp add: new_AsyncQueue_def stream_completion_def)
  obtain c2 st2 where ch: "call_handler eh e
      \<lparr>queue = \<lparr>items = validated p fs, status = Open\<rparr>,
        effects = frame_effects p eh fs\<rparr> = (c2, st2)" by fastforce
  have tc: "then_callback p eh fs (ReadFailure e) ?st0 = (c2, queue_close st2)"
    using fa ch by (simp add: then_callback_def)
  have q2: "items (queue (queue_close st2)) = validated p fs"
    "status (queue (queue_close st2)) = Closed"
    using call_handler_queue[OF ch] by (simp_all add: queue_close_def close_def)
  show ?thesis
  proof (cases c2)
    case Returns
    then show ?thesis using tc q2 ReadFailure by (simp add: readEventSourceStream_def)
  next
    case (Throws e2)
    obtain c3 st3 where cc: "catch_callback eh e2 (queue_close st2) = (c3, st3)" by fastforce
    then have "snd ?r = st3" using tc Throws ReadFailure by (simp add: readEventSourceStream_def)
    then show ?thesis using catch_callback_closed(1)[OF q2(2) cc] q2(1) by simp
  qed
qed

text \<open>
  Where \<open>close()\<close> is called: on every run over an event stream, whatever the frames,
  the end of the stream and the handler do; and after a rejected setup promise when the
  handler is absent or returns.
\<close>

lemma close_is_called:
  fixes p :: "string \<Rightarrow> 'x + 'a"
  shows "CloseCalled \<in> set (effects (snd (readEventSourceStream p eh (EventStream fs fin)))) \<and>
         status (queue (snd (readEventSourceStream p eh (EventStream fs fin)))) = Closed \<and>
         snd (observed (readEventSourceStream p eh (EventStream fs fin))) = EndOfSequence \<and>
         (handler_returns eh e \<longrightarrow>
            CloseCalled \<in> set (effects (snd (readEventSourceStream p eh (SetupRejected e)))) \<and>
            status (queue (snd (readEventSourceStream p eh (SetupRejected e)))) = Closed \<and>
            snd (observed (readEventSourceStream p eh (SetupRejected e))) = EndOfSequence)"
  using close_called_on_stream[of p eh fs fin] stream_run_closed(1)[OF refl, of p eh fs fin]
  by (auto simp: observed_stream_run[OF refl] setup_run observed_def consume_Closed)

section \<open>The async iterator over a reader\<close>

declare iterate.simps [simp del]

lemma iterator_next_value:
  "pending r = v # vs \<Longrightarrow>
   iterator_next (Suspended r) = (Item v, Suspended (r\<lparr>pending := vs, reads := Suc (reads r)\<rparr>))"
  by (simp add: iterator_next_def read_def)

lemma iterator_next_done:
  "pending r = [] \<Longrightarrow> ending r = None \<Longrightarrow>
   iterator_next (Suspended r) = (EndOfSequence, Completed (r\<lparr>reads := Suc (reads r)\<rparr>))"
  by (simp add: iterator_next_def read_def)

lemma iterator_next_completed: "iterator_next (Completed r) = (EndOfSequence, Completed r)"
  by (simp add: iterator_next_def)

lemma iterate_finite_reader:
  "ending r = None \<Longrightarrow>
   iterate (Suspended r) =
     (pending r, EndOfSequence, Completed (r\<lparr>pending := [], reads := reads r + length (pending r) + 1\<rparr>))"
proof (induction "pending r" arbitrary: r)
  case Nil
  then have p: "pending r = []" by simp
  show ?case
    by (subst iterate.simps) (simp add: iterator_next_done[OF p Nil(2)] p)
next
  case (Cons v vs)
  then have p: "pending r = v # vs" by simp
  let ?r' = "r\<lparr>pending := vs, reads := Suc (reads r)\<rparr>"
  have ih: "iterate (Suspended ?r') =
     (pending ?r', EndOfSequence, Completed (?r'\<lparr>pending := [], reads := reads ?r' + length (pending ?r') + 1\<rparr>))"
    using Cons(1)[of ?r'] Cons(3) by simp
  show ?case
    by (subst iterate.simps) (simp add: iterator_next_value[OF p] ih p)
qed

lemma next_n_values:
  "k \<le> length (pending r) \<Longrightarrow>
   next_n k (Suspended r) =
     (map Item (take k (pending r)), Suspended (r\<lparr>pending := drop k (pending r), reads := reads r + k\<rparr>))"
proof (induction k arbitrary: r)
  case 0
  then show ?case by simp
next
  case (Suc k)
  then obtain v vs where p: "pending r = v # vs" by (cases "pending r") auto
  let ?r' = "r\<lparr>pending := vs, reads := Suc (reads r)\<rparr>"
  have "k \<le> length (pending ?r')" using Suc.prems p by simp
  from Suc.IH[OF this] show ?case
    by (simp add: iterator_next_value[OF p] p)
qed

lemma next_n_completed: "next_n j (Completed r) = (replicate j EndOfSequence, Completed r)"
  by (induction j) (simp_all add: iterator_next_completed)

section \<open>The Cohere embedding model\<close>

declare decimal.simps [simp del]

lemma decimal_maxTextsPerCall: "decimal maxTextsPerCall = ''96''"
proof -
  have "decimal 96 = decimal 9 @ [digit 6]"
    by (subst decimal.simps) simp
  also have "decimal 9 = [digit 9]"
    by (subst decimal.simps) simp
  finally show ?thesis by (simp add: digit_def maxTextsPerCall_def)
qed



text \<open>
  A model name that the table object inherits from \<open>Object.prototype\<close>: the constructor
  does not throw, and the instance has \<open>undefined\<close> limits. A name that is neither a key
  of the table nor inherited: the read of \<open>.maxTokens\<close> throws.
\<close>

lemma constructor_finds_inherited_names:
  "new_CohereTextEmbeddingModel sample_environment
      (sample_heap\<lparr>objects := [0 \<mapsto> [''model'' \<mapsto> Str ''toString'']]\<rparr>) 0 =
     Inr \<lparr>settings = 0, maxTokens = None, embeddingDimensions = None,
          tokenizer = \<lparr>tokenizer_apiKey = Str ''key-from-env'', tokenizer_model = Str ''toString''\<rparr>\<rparr>"
  by (simp add: new_CohereTextEmbeddingModel_def table_lookup_def property_def
      COHERE_TEXT_EMBEDDING_MODELS_def Object_prototype_members_def read_maxTokens_def
      read_embeddingDimensions_def apiKey_def sample_environment_def)

lemma constructor_throws_on_unknown_names:
  "new_CohereTextEmbeddingModel sample_environment
      (sample_heap\<lparr>objects := [0 \<mapsto> [''model'' \<mapsto> Str ''embed-unknown'']]\<rparr>) 0 =
     Inl (TypeError ''Cannot read properties of undefined (reading maxTokens)'')"
  by (simp add: new_CohereTextEmbeddingModel_def table_lookup_def property_def
      COHERE_TEXT_EMBEDDING_MODELS_def Object_prototype_members_def read_maxTokens_def)

section \<open>The pace of the consumer\<close>

lemma replay_status:
  "status q \<noteq> ClosedWithError e \<Longrightarrow> status (replay ef q) \<noteq> ClosedWithError e"
  by (cases ef) (auto simp: replay_def push_def close_def)

lemma replay_tail:
  "items q = v # vs \<Longrightarrow> replay ef (q\<lparr>items := vs\<rparr>) = (replay ef q)\<lparr>items := tl (items (replay ef q))\<rparr>"
  by (cases ef) (auto simp: replay_def push_def close_def)

lemma replay_items_Cons:
  "items q = v # vs \<Longrightarrow> \<exists>ws. items (replay ef q) = v # ws"
  by (cases ef) (auto simp: replay_def push_def close_def)

lemma consume_fold_Cons:
  "items q = v # vs \<Longrightarrow>
   consume (fold replay efs q) =
     (case consume (fold replay efs (q\<lparr>items := vs\<rparr>)) of (xs, r) \<Rightarrow> (v # xs, r))"
proof (induction efs arbitrary: q vs)
  case Nil
  then show ?case by (simp add: consume_Cons)
next
  case (Cons ef efs)
  from replay_items_Cons[OF Cons.prems, of ef] obtain ws where ws: "items (replay ef q) = v # ws" by blast
  have "replay ef (q\<lparr>items := vs\<rparr>) = (replay ef q)\<lparr>items := ws\<rparr>"
    using replay_tail[OF Cons.prems, of ef] ws by simp
  then show ?case using Cons.IH[OF ws] by simp
qed

lemma fold_replay_closed:
  "status q = Closed \<Longrightarrow> fold replay efs q = q"
proof (induction efs)
  case Nil
  then show ?case by simp
next
  case (Cons ef efs)
  have "replay ef q = q" using Cons.prems by (cases ef) (auto simp: replay_def push_def close_def)
  then show ?case using Cons by simp
qed

lemma paced_is_consume:
  "(\<forall>e. status q \<noteq> ClosedWithError e) \<Longrightarrow> paced schedule efs q = consume (fold replay efs q)"
proof (induction schedule efs q rule: paced.induct)
  case (1 schedule q)
  then show ?case by simp
next
  case (2 ef efs q)
  then show ?case using replay_status[of q _ ef] by simp
next
  case (3 schedule ef efs q)
  then show ?case using replay_status[of q _ ef] by simp
next
  case (4 schedule ef efs q)
  show ?case
  proof (cases "items q")
    case (Cons v vs)
    then have ni: "next_item q = (Item v, q\<lparr>items := vs\<rparr>)" by (simp add: next_item_def)
    have "paced schedule (ef # efs) (q\<lparr>items := vs\<rparr>) = consume (fold replay (ef # efs) (q\<lparr>items := vs\<rparr>))"
      using 4(1)[OF ni[symmetric] refl] 4(3) by simp
    then show ?thesis
      using ni consume_fold_Cons[OF Cons, of "ef # efs"] by simp
  next
    case Nil
    show ?thesis
    proof (cases "status q")
      case Open
      then have ni: "next_item q = (Pending, q)" using Nil by (simp add: next_item_def)
      then show ?thesis using 4(2)[OF ni[symmetric] refl] 4(3) by simp
    next
      case Closed
      then have ni: "next_item q = (EndOfSequence, q)" using Nil by (simp add: next_item_def)
      have "fold replay (ef # efs) q = q" using Closed by (rule fold_replay_closed)
      then show ?thesis using ni Closed Nil by (simp add: consume_Closed)
    next
      case (ClosedWithError e)
      then show ?thesis using 4(3) by simp
    qed
  qed
qed


lemma replayed_call_handler:
  "replayed st \<Longrightarrow> call_handler eh e st = (c, st') \<Longrightarrow> replayed st'"
  by (auto simp: call_handler_def replayed_def replay_def split: option.splits)

lemma replayed_queue_push:
  "replayed st \<Longrightarrow> queue_push v st = (c, st') \<Longrightarrow> replayed st'"
  by (auto simp: queue_push_def replayed_def replay_def split: sum.splits)

lemma replayed_queue_close: "replayed st \<Longrightarrow> replayed (queue_close st)"
  by (simp add: queue_close_def replayed_def replay_def)

lemma replayed_for_await:
  "replayed st \<Longrightarrow> for_await p eh fs fin st = (c, st') \<Longrightarrow> replayed st'"
proof (induction fs arbitrary: st)
  case Nil
  then show ?case by (cases fin) auto
next
  case (Cons ev fs)
  show ?case
  proof (cases "p (data ev)")
    case (Inl x)
    obtain c1 st1 where ch: "call_handler eh (Err x) st = (c1, st1)" by fastforce
    have r1: "replayed st1" using replayed_call_handler[OF Cons.prems(1) ch] .
    show ?thesis
    proof (cases c1)
      case Returns
      then have "for_await p eh fs fin st1 = (c, st')" using Cons.prems(2) Inl ch by simp
      then show ?thesis using Cons.IH[OF r1] by simp
    next
      case (Throws e)
      then have "st' = st1" using Cons.prems(2) Inl ch by simp
      then show ?thesis using r1 by simp
    qed
  next
    case (Inr v)
    obtain c1 st1 where qp: "queue_push v st = (c1, st1)" by fastforce
    have r1: "replayed st1" using replayed_queue_push[OF Cons.prems(1) qp] .
    show ?thesis
    proof (cases c1)
      case Returns
      then have "for_await p eh fs fin st1 = (c, st')" using Cons.prems(2) Inr qp by simp
      then show ?thesis using Cons.IH[OF r1] by simp
    next
      case (Throws e)
      then have "st' = st1" using Cons.prems(2) Inr qp by simp
      then show ?thesis using r1 by simp
    qed
  qed
qed

lemma replayed_then_callback:
  assumes "replayed st" and "then_callback p eh fs fin st = (c, st')"
  shows "replayed st'"
proof -
  obtain c1 st1 where fa: "for_await p eh fs fin st = (c1, st1)" by fastforce
  have r1: "replayed st1" using replayed_for_await[OF assms(1) fa] .
  show ?thesis
  proof (cases c1)
    case Returns
    then have "st' = queue_close st1" using assms(2) fa by (simp add: then_callback_def)
    then show ?thesis using replayed_queue_close[OF r1] by simp
  next
    case (Throws e)
    obtain c2 st2 where ch: "call_handler eh e st1 = (c2, st2)" by fastforce
    then have "st' = queue_close st2" using assms(2) fa Throws by (simp add: then_callback_def)
    then show ?thesis using replayed_queue_close[OF replayed_call_handler[OF r1 ch]] by simp
  qed
qed

lemma replayed_catch_callback:
  assumes "replayed st" and "catch_callback eh e st = (c, st')"
  shows "replayed st'"
proof -
  obtain c1 st1 where ch: "call_handler eh e st = (c1, st1)" by fastforce
  have r1: "replayed st1" using replayed_call_handler[OF assms(1) ch] .
  have "st' = st1 \<or> st' = queue_close st1"
    using assms(2) ch by (cases c1) (auto simp: catch_callback_def)
  then show ?thesis using r1 replayed_queue_close[OF r1] by auto
qed

lemma replayed_readEventSourceStream:
  fixes p :: "string \<Rightarrow> 'x + 'a"
  shows "replayed (snd (readEventSourceStream p eh source))"
proof -
  let ?st0 = "\<lparr>queue = new_AsyncQueue, effects = []\<rparr> :: ('a, 'x js_error) run_state"
  have r0: "replayed ?st0" by (simp add: replayed_def)
  show ?thesis
  proof (cases source)
    case (SetupRejected e)
    obtain c st where cc: "catch_callback eh e ?st0 = (c, st)" by fastforce
    then show ?thesis using SetupRejected replayed_catch_callback[OF r0 cc]
      by (simp add: readEventSourceStream_def)
  next
    case (EventStream fs fin)
    obtain c1 st1 where tc: "then_callback p eh fs fin ?st0 = (c1, st1)" by fastforce
    have r1: "replayed st1" using replayed_then_callback[OF r0 tc] .
    show ?thesis
    proof (cases c1)
      case Returns
      then show ?thesis using EventStream tc r1 by (simp add: readEventSourceStream_def)
    next
      case (Throws e)
      obtain c2 st2 where cc: "catch_callback eh e st1 = (c2, st2)" by fastforce
      then show ?thesis using EventStream tc Throws replayed_catch_callback[OF r1 cc]
        by (simp add: readEventSourceStream_def)
    qed
  qed
qed

text \<open>
  Whatever the pace of the consumer, it receives what a consumer receives that starts to
  read when the reader has finished.
\<close>

lemma pacing_is_irrelevant:
  fixes p :: "string \<Rightarrow> 'x + 'a"
  shows "paced schedule (effects (snd (readEventSourceStream p eh source))) new_AsyncQueue =
         observed (readEventSourceStream p eh source)"
proof -
  have "paced schedule (effects (snd (readEventSourceStream p eh source))) new_AsyncQueue =
        consume (fold replay (effects (snd (readEventSourceStream p eh source))) new_AsyncQueue)"
    by (rule paced_is_consume) (simp add: new_AsyncQueue_def)
  then show ?thesis
    using replayed_readEventSourceStream[of p eh source] by (simp add: replayed_def observed_def)
qed

section \<open>What the reader records at a frame and at a failure\<close>

lemma returns_on_invalid_append:
  "returns_on_invalid p eh (xs @ ys) = (returns_on_invalid p eh xs \<and> returns_on_invalid p eh ys)"
  by (simp add: returns_on_invalid_def)

lemma for_await_append:
  "status (queue st) = Open \<Longrightarrow> returns_on_invalid p eh before \<Longrightarrow>
   for_await p eh (before @ rest) fin st =
   for_await p eh rest fin
     (st\<lparr>queue := (queue st)\<lparr>items := items (queue st) @ validated p before\<rparr>,
        effects := effects st @ frame_effects p eh before\<rparr>)"
proof (induction before arbitrary: st)
  case Nil
  then show ?case by (simp add: validated_def frame_effects_def)
next
  case (Cons ev before)
  show ?case
  proof (cases "p (data ev)")
    case (Inl x)
    with Cons.prems have hr: "handler_returns eh (Err x)" and rest: "returns_on_invalid p eh before"
      by (simp_all add: returns_on_invalid_def)
    define st' where "st' = st\<lparr>effects := effects st @ (case eh of None \<Rightarrow> [] | Some h \<Rightarrow> [HandlerCalled (Err x)])\<rparr>"
    have ch: "call_handler eh (Err x) st = (Returns, st')"
      using hr by (simp add: call_handler_returns st'_def)
    have "for_await p eh ((ev # before) @ rest) fin st = for_await p eh (before @ rest) fin st'"
      using Inl ch by simp
    also have "\<dots> = for_await p eh rest fin
        (st'\<lparr>queue := (queue st')\<lparr>items := items (queue st') @ validated p before\<rparr>,
            effects := effects st' @ frame_effects p eh before\<rparr>)"
      using Cons.IH[of st'] Cons.prems(1) rest by (simp add: st'_def)
    finally show ?thesis
      using Inl by (cases eh) (simp_all add: validated_def frame_effects_def st'_def)
  next
    case (Inr v)
    with Cons.prems have rest: "returns_on_invalid p eh before"
      by (simp add: returns_on_invalid_def)
    define st' where "st' = st\<lparr>queue := (queue st)\<lparr>items := items (queue st) @ [v]\<rparr>, effects := effects st @ [Pushed v]\<rparr>"
    have qp: "queue_push v st = (Returns, st')"
      using Cons.prems(1) by (simp add: queue_push_def push_def st'_def)
    have "for_await p eh ((ev # before) @ rest) fin st = for_await p eh (before @ rest) fin st'"
      using Inr qp by simp
    also have "\<dots> = for_await p eh rest fin
        (st'\<lparr>queue := (queue st')\<lparr>items := items (queue st') @ validated p before\<rparr>,
            effects := effects st' @ frame_effects p eh before\<rparr>)"
      using Cons.IH[of st'] Cons.prems(1) rest by (simp add: st'_def)
    finally show ?thesis
      using Inr by (simp add: validated_def frame_effects_def st'_def)
  qed
qed

lemma pushed_values_append: "pushed_values (xs @ ys) = pushed_values xs @ pushed_values ys"
  by (simp add: pushed_values_def)

lemma for_await_effects:
  "status (queue st) = Open \<Longrightarrow> for_await p eh fs fin st = (c, st') \<Longrightarrow>
   \<exists>rest. effects st' = effects st @ rest \<and> prefix (pushed_values rest) (validated p fs)"
proof (induction fs arbitrary: st)
  case Nil
  then show ?case by (cases fin) (auto simp: pushed_values_def)
next
  case (Cons ev fs)
  show ?case
  proof (cases "p (data ev)")
    case (Inl x)
    obtain c1 st1 where ch: "call_handler eh (Err x) st = (c1, st1)" by fastforce
    then obtain r0 where e1: "effects st1 = effects st @ r0" and p0: "pushed_values r0 = []"
      by (cases eh) (auto simp: call_handler_def pushed_values_def)
    have q1: "status (queue st1) = Open" using call_handler_queue[OF ch] Cons.prems(1) by simp
    have v: "validated p (ev # fs) = validated p fs" using Inl by (simp add: validated_def)
    show ?thesis
    proof (cases c1)
      case Returns
      then have "for_await p eh fs fin st1 = (c, st')" using Cons.prems(2) Inl ch by simp
      from Cons.IH[OF q1 this] obtain rest where
        "effects st' = effects st1 @ rest" "prefix (pushed_values rest) (validated p fs)" by blast
      then have "effects st' = effects st @ (r0 @ rest) \<and>
          prefix (pushed_values (r0 @ rest)) (validated p (ev # fs))"
        using e1 p0 v by (simp add: pushed_values_append)
      then show ?thesis by blast
    next
      case (Throws e)
      then have "st' = st1" using Cons.prems(2) Inl ch by simp
      then have "effects st' = effects st @ r0 \<and> prefix (pushed_values r0) (validated p (ev # fs))"
        using e1 p0 by simp
      then show ?thesis by blast
    qed
  next
    case (Inr v)
    define st1 where "st1 = st\<lparr>queue := (queue st)\<lparr>items := items (queue st) @ [v]\<rparr>, effects := effects st @ [Pushed v]\<rparr>"
    have qp: "queue_push v st = (Returns, st1)"
      using Cons.prems(1) by (simp add: queue_push_def push_def st1_def)
    then have fa: "for_await p eh fs fin st1 = (c, st')" using Cons.prems(2) Inr by simp
    have open1: "status (queue st1) = Open" using Cons.prems(1) by (simp add: st1_def)
    from Cons.IH[OF open1 fa] obtain rest where
      r: "effects st' = effects st1 @ rest" "prefix (pushed_values rest) (validated p fs)" by blast
    have v: "validated p (ev # fs) = v # validated p fs" using Inr by (simp add: validated_def)
    have "effects st' = effects st @ (Pushed v # rest) \<and>
        prefix (pushed_values (Pushed v # rest)) (validated p (ev # fs))"
      using r v by (simp add: st1_def pushed_values_def)
    then show ?thesis by blast
  qed
qed

lemma effects_after_loop:
  fixes p :: "string \<Rightarrow> 'x + 'a"
  assumes "for_await p eh fs fin (\<lparr>queue = new_AsyncQueue, effects = []\<rparr> :: ('a, 'x js_error) run_state) = (c1, s1)"
  shows "\<exists>rest. effects (snd (readEventSourceStream p eh (EventStream fs fin))) = effects s1 @ rest \<and>
               pushed_values rest = []"
  using assms
  by (auto simp: readEventSourceStream_def then_callback_def catch_callback_def call_handler_def
      queue_close_def pushed_values_def split: completion.splits option.splits)

lemma invalid_frame_step:
  assumes "p (data ev) = Inl x"
  shows "for_await p eh (ev # events) fin st =
     (if handler_returns eh (Err x)
      then for_await p eh events fin
             (st\<lparr>effects := effects st @
                   (case eh of None \<Rightarrow> [] | Some h \<Rightarrow> [HandlerCalled (Err x)])\<rparr>)
      else ((case eh of None \<Rightarrow> Returns | Some h \<Rightarrow> h (Err x)),
            st\<lparr>effects := effects st @
                   (case eh of None \<Rightarrow> [] | Some h \<Rightarrow> [HandlerCalled (Err x)])\<rparr>))"
proof (cases eh)
  case None
  then show ?thesis using assms by (simp add: call_handler_def handler_returns_def)
next
  case (Some h)
  then show ?thesis using assms
    by (cases "h (Err x)") (simp_all add: call_handler_def handler_returns_def)
qed

lemma invalid_frame_in_stream:
  fixes p :: "string \<Rightarrow> 'x + 'a"
  assumes inv: "p (data ev) = Inl x" and roi: "returns_on_invalid p eh before"
  shows "\<exists>rest. effects (snd (readEventSourceStream p eh (EventStream (before @ ev # after) fin))) =
                  frame_effects p eh before @
                  (case eh of None \<Rightarrow> [] | Some h \<Rightarrow> [HandlerCalled (Err x)]) @ rest \<and>
                prefix (pushed_values rest) (validated p after)"
proof -
  let ?st0 = "\<lparr>queue = new_AsyncQueue, effects = []\<rparr> :: ('a, 'x js_error) run_state"
  let ?hc = "(case eh of None \<Rightarrow> [] | Some h \<Rightarrow> [HandlerCalled (Err x)]) :: ('a, 'x js_error) effect list"
  define s1 where "s1 = (\<lparr>queue = \<lparr>items = validated p before, status = Open\<rparr>,
      effects = frame_effects p eh before @ ?hc\<rparr> :: ('a, 'x js_error) run_state)"
  obtain c2 s2 where fa: "for_await p eh (before @ ev # after) fin ?st0 = (c2, s2)" by fastforce
  have reach: "for_await p eh (before @ ev # after) fin ?st0 =
      (if handler_returns eh (Err x) then for_await p eh after fin s1
       else ((case eh of None \<Rightarrow> Returns | Some h \<Rightarrow> h (Err x)), s1))"
  proof -
    let ?s0 = "\<lparr>queue = \<lparr>items = validated p before, status = Open\<rparr>,
      effects = frame_effects p eh before\<rparr> :: ('a, 'x js_error) run_state"
    have "for_await p eh (before @ ev # after) fin ?st0 = for_await p eh (ev # after) fin ?s0"
      using for_await_append[of ?st0 p eh before "ev # after" fin] roi
      by (simp add: new_AsyncQueue_def del: for_await.simps)
    also have "\<dots> = (if handler_returns eh (Err x) then for_await p eh after fin s1
       else ((case eh of None \<Rightarrow> Returns | Some h \<Rightarrow> h (Err x)), s1))"
      using invalid_frame_step[where p = p and ev = ev and x = x and eh = eh and events = after
          and fin = fin and st = ?s0, OF inv]
      by (simp add: s1_def del: for_await.simps)
    finally show ?thesis .
  qed
  have "\<exists>r1. effects s2 = effects s1 @ r1 \<and> prefix (pushed_values r1) (validated p after)"
  proof (cases "handler_returns eh (Err x)")
    case True
    then have "for_await p eh after fin s1 = (c2, s2)" using reach fa by simp
    moreover have "status (queue s1) = Open" by (simp add: s1_def)
    ultimately show ?thesis using for_await_effects by blast
  next
    case False
    then have "s2 = s1" using reach fa by simp
    then show ?thesis by (simp add: pushed_values_def)
  qed
  then obtain r1 where r1: "effects s2 = effects s1 @ r1" "prefix (pushed_values r1) (validated p after)"
    by blast
  from effects_after_loop[OF fa] obtain r2 where
    r2: "effects (snd (readEventSourceStream p eh (EventStream (before @ ev # after) fin))) = effects s2 @ r2"
        "pushed_values r2 = []" by blast
  have "effects (snd (readEventSourceStream p eh (EventStream (before @ ev # after) fin))) =
      frame_effects p eh before @ ?hc @ (r1 @ r2)"
    using r1(1) r2(1) by (simp add: s1_def)
  moreover have "prefix (pushed_values (r1 @ r2)) (validated p after)"
    using r1(2) r2(2) by (simp add: pushed_values_append)
  ultimately show ?thesis by blast
qed

lemma read_failure_effects:
  fixes p :: "string \<Rightarrow> 'x + 'a"
  assumes roi: "returns_on_invalid p eh fs"
  shows "effects (snd (readEventSourceStream p eh (EventStream fs (ReadFailure e)))) =
           frame_effects p eh fs @
           (case eh of None \<Rightarrow> [] | Some h \<Rightarrow> [HandlerCalled e]) @ [CloseCalled] @
           (case eh of
              None \<Rightarrow> []
            | Some h \<Rightarrow>
               (case h e of
                  Returns \<Rightarrow> []
                | Throws e2 \<Rightarrow>
                    HandlerCalled e2 # (case h e2 of Returns \<Rightarrow> [CloseCalled] | Throws e3 \<Rightarrow> [])))"
    and "queue (snd (readEventSourceStream p eh (EventStream fs (ReadFailure e)))) =
           \<lparr>items = validated p fs, status = Closed\<rparr>"
proof -
  let ?st0 = "\<lparr>queue = new_AsyncQueue, effects = []\<rparr> :: ('a, 'x js_error) run_state"
  have fa: "for_await p eh fs (ReadFailure e) ?st0 =
     (Throws e, \<lparr>queue = \<lparr>items = validated p fs, status = Open\<rparr>,
                 effects = frame_effects p eh fs\<rparr>)"
    using for_await_returns[of ?st0 p eh fs "ReadFailure e"] roi
    by (simp add: new_AsyncQueue_def stream_completion_def)
  show "effects (snd (readEventSourceStream p eh (EventStream fs (ReadFailure e)))) =
           frame_effects p eh fs @
           (case eh of None \<Rightarrow> [] | Some h \<Rightarrow> [HandlerCalled e]) @ [CloseCalled] @
           (case eh of
              None \<Rightarrow> []
            | Some h \<Rightarrow>
               (case h e of
                  Returns \<Rightarrow> []
                | Throws e2 \<Rightarrow>
                    HandlerCalled e2 # (case h e2 of Returns \<Rightarrow> [CloseCalled] | Throws e3 \<Rightarrow> [])))"
    using fa
    by (auto simp: readEventSourceStream_def then_callback_def catch_callback_def call_handler_def
        queue_close_def split: completion.splits option.splits)
  show "queue (snd (readEventSourceStream p eh (EventStream fs (ReadFailure e)))) =
           \<lparr>items = validated p fs, status = Closed\<rparr>"
    using fa
    by (auto simp: readEventSourceStream_def then_callback_def catch_callback_def call_handler_def
        queue_close_def close_def split: completion.splits option.splits)
qed

lemma setup_rejected_effects:
  fixes p :: "string \<Rightarrow> 'x + 'a"
  shows "\<exists>rest. effects (snd (readEventSourceStream p eh (SetupRejected e))) =
           (case eh of None \<Rightarrow> [] | Some h \<Rightarrow> [HandlerCalled e]) @ rest \<and> pushed_values rest = []"
proof (cases eh)
  case None
  then show ?thesis
    by (simp add: readEventSourceStream_def catch_callback_def call_handler_def queue_close_def
        pushed_values_def)
next
  case (Some h)
  then show ?thesis
    by (cases "h e")
       (simp_all add: readEventSourceStream_def catch_callback_def call_handler_def queue_close_def
        pushed_values_def)
qed

section \<open>Claims about readEventSourceStream\<close>

subsection \<open>C1: a frame that fails validation\<close>

text \<open>
  Claim C1, as amended. For every frame that the loop reaches and whose \<open>data\<close> fails
  JSON parsing or schema validation, the reader calls the error handler (when one was
  supplied) with the failure detail and pushes nothing for the frame, whatever the
  handler does: the state after the frame differs from the state before it by the
  recorded handler call only. When no handler was supplied, or the handler returns
  normally, the loop goes on with the frames that follow; when the handler throws, the
  loop ends with what it threw. Over a whole stream in which the handler returns on the
  invalid frames before this one (or there is no handler), the recorded calls are those
  of the earlier frames, then the handler call for this frame, then calls that push
  values of later frames only; if the handler returns on all invalid frames and the
  stream ends normally, the frames before and after are all processed and the queue is
  closed only at the end.
\<close>

theorem invalid_frame_is_reported_and_skipped:
  fixes safeParseJSON :: "string \<Rightarrow> 'x + 'a"
  assumes "safeParseJSON (data ev) = Inl x"
  shows "for_await safeParseJSON errorHandler (ev # events) fin st =
           (if handler_returns errorHandler (Err x)
            then for_await safeParseJSON errorHandler events fin
                   (st\<lparr>effects := effects st @ (case errorHandler of None \<Rightarrow> [] | Some h \<Rightarrow> [HandlerCalled (Err x)])\<rparr>)
            else ((case errorHandler of None \<Rightarrow> Returns | Some h \<Rightarrow> h (Err x)),
                  st\<lparr>effects := effects st @ (case errorHandler of None \<Rightarrow> [] | Some h \<Rightarrow> [HandlerCalled (Err x)])\<rparr>)) \<and>
         (handler_returns errorHandler (Err x) \<longrightarrow>
            for_await safeParseJSON errorHandler (ev # events) fin st =
            for_await safeParseJSON errorHandler events fin
              (st\<lparr>effects := effects st @ (case errorHandler of None \<Rightarrow> [] | Some h \<Rightarrow> [HandlerCalled (Err x)])\<rparr>)) \<and>
         (returns_on_invalid safeParseJSON errorHandler before \<longrightarrow>
            (\<exists>rest.
               effects (snd (readEventSourceStream safeParseJSON errorHandler
                               (EventStream (before @ ev # after) fin))) =
                 frame_effects safeParseJSON errorHandler before @ (case errorHandler of None \<Rightarrow> [] | Some h \<Rightarrow> [HandlerCalled (Err x)]) @ rest \<and>
               prefix (pushed_values rest) (validated safeParseJSON after))) \<and>
         (returns_on_invalid safeParseJSON errorHandler (before @ ev # after) \<longrightarrow>
            readEventSourceStream safeParseJSON errorHandler (EventStream (before @ ev # after) Done) =
              (Returns,
               \<lparr>queue = \<lparr>items = validated safeParseJSON before @ validated safeParseJSON after,
                         status = Closed\<rparr>,
                effects = frame_effects safeParseJSON errorHandler before @ (case errorHandler of None \<Rightarrow> [] | Some h \<Rightarrow> [HandlerCalled (Err x)]) @
                          frame_effects safeParseJSON errorHandler after @ [CloseCalled]\<rparr>))"
proof (intro conjI impI)
  show step: "for_await safeParseJSON errorHandler (ev # events) fin st =
           (if handler_returns errorHandler (Err x)
            then for_await safeParseJSON errorHandler events fin
                   (st\<lparr>effects := effects st @ (case errorHandler of None \<Rightarrow> [] | Some h \<Rightarrow> [HandlerCalled (Err x)])\<rparr>)
            else ((case errorHandler of None \<Rightarrow> Returns | Some h \<Rightarrow> h (Err x)),
                  st\<lparr>effects := effects st @ (case errorHandler of None \<Rightarrow> [] | Some h \<Rightarrow> [HandlerCalled (Err x)])\<rparr>))"
    using assms by (rule invalid_frame_step)
  assume "handler_returns errorHandler (Err x)"
  then show "for_await safeParseJSON errorHandler (ev # events) fin st =
            for_await safeParseJSON errorHandler events fin
              (st\<lparr>effects := effects st @ (case errorHandler of None \<Rightarrow> [] | Some h \<Rightarrow> [HandlerCalled (Err x)])\<rparr>)"
    using step by simp
next
  assume "returns_on_invalid safeParseJSON errorHandler before"
  then show "\<exists>rest.
               effects (snd (readEventSourceStream safeParseJSON errorHandler
                               (EventStream (before @ ev # after) fin))) =
                 frame_effects safeParseJSON errorHandler before @ (case errorHandler of None \<Rightarrow> [] | Some h \<Rightarrow> [HandlerCalled (Err x)]) @ rest \<and>
               prefix (pushed_values rest) (validated safeParseJSON after)"
    using assms by (rule invalid_frame_in_stream[rotated])
next
  assume roi: "returns_on_invalid safeParseJSON errorHandler (before @ ev # after)"
  have v: "validated safeParseJSON (before @ ev # after) =
      validated safeParseJSON before @ validated safeParseJSON after"
    using assms by (simp add: validated_def)
  have f: "frame_effects safeParseJSON errorHandler (before @ ev # after) =
      frame_effects safeParseJSON errorHandler before @ (case errorHandler of None \<Rightarrow> [] | Some h \<Rightarrow> [HandlerCalled (Err x)]) @
      frame_effects safeParseJSON errorHandler after"
    using assms by (simp add: frame_effects_def)
  show "readEventSourceStream safeParseJSON errorHandler (EventStream (before @ ev # after) Done) =
              (Returns,
               \<lparr>queue = \<lparr>items = validated safeParseJSON before @ validated safeParseJSON after,
                         status = Closed\<rparr>,
                effects = frame_effects safeParseJSON errorHandler before @ (case errorHandler of None \<Rightarrow> [] | Some h \<Rightarrow> [HandlerCalled (Err x)]) @
                          frame_effects safeParseJSON errorHandler after @ [CloseCalled]\<rparr>)"
    using stream_run_returns[OF roi] v f by simp
qed

text \<open>
  A handler that returns: the frame \<open>not-json\<close> is reported, and the frame after it is
  read and pushed. A handler that throws: the frame is reported all the same, nothing is
  pushed, and the loop ends with what the handler threw.
\<close>

theorem invalid_frame_is_reported_and_skipped_witness:
  "parse_x1 (data (data_frame ''not-json'')) = Inl ''not valid: not-json'' \<and>
   handler_returns (Some recording_handler) (Err ''not valid: not-json'') \<and>
   returns_on_invalid parse_x1 (Some recording_handler)
     ([data_frame ''{\"x\":1}''] @ data_frame ''not-json'' # [data_frame ''{\"x\":1}'']) \<and>
   for_await parse_x1 (Some recording_handler)
     [data_frame ''not-json'', data_frame ''{\"x\":1}''] Done
     \<lparr>queue = new_AsyncQueue, effects = []\<rparr> =
   (Returns, \<lparr>queue = \<lparr>items = [[(''x'', 1)]], status = Open\<rparr>,
              effects = [HandlerCalled (Err ''not valid: not-json''), Pushed [(''x'', 1)]]\<rparr>) \<and>
   for_await parse_x1 (Some throwing_handler)
     [data_frame ''not-json'', data_frame ''{\"x\":1}''] Done
     \<lparr>queue = new_AsyncQueue, effects = []\<rparr> =
   (Throws (Err ''not valid: not-json''),
    \<lparr>queue = \<lparr>items = [], status = Open\<rparr>,
      effects = [HandlerCalled (Err ''not valid: not-json'')]\<rparr>) \<and>
   readEventSourceStream parse_x1 (Some recording_handler)
     (EventStream [data_frame ''{\"x\":1}'', data_frame ''not-json'', data_frame ''{\"x\":1}''] Done) =
   (Returns, \<lparr>queue = \<lparr>items = [[(''x'', 1)], [(''x'', 1)]], status = Closed\<rparr>,
              effects = [Pushed [(''x'', 1)], HandlerCalled (Err ''not valid: not-json''),
                         Pushed [(''x'', 1)], CloseCalled]\<rparr>)"
proof -
  have h1: "parse_x1 (data (data_frame ''not-json'')) = Inl ''not valid: not-json''"
    by (simp add: parse_x1_def data_frame_def)
  have h2: "handler_returns (Some (recording_handler :: string js_error ErrorHandler)) (Err ''not valid: not-json'')"
    by (simp add: handler_returns_def recording_handler_def)
  have h3: "returns_on_invalid parse_x1 (Some (recording_handler :: string js_error ErrorHandler))
     ([data_frame ''{\"x\":1}''] @ data_frame ''not-json'' # [data_frame ''{\"x\":1}''])"
    by (simp add: returns_on_invalid_def parse_x1_def data_frame_def handler_returns_def
        recording_handler_def)
  note t = invalid_frame_is_reported_and_skipped[where safeParseJSON = parse_x1
        and ev = "data_frame ''not-json''" and x = "''not valid: not-json''"
        and errorHandler = "Some recording_handler", OF h1]
  note u = invalid_frame_is_reported_and_skipped[where safeParseJSON = parse_x1
        and ev = "data_frame ''not-json''" and x = "''not valid: not-json''"
        and errorHandler = "Some throwing_handler", OF h1]
  have c1: "for_await parse_x1 (Some recording_handler)
     [data_frame ''not-json'', data_frame ''{\"x\":1}''] Done
     \<lparr>queue = new_AsyncQueue, effects = []\<rparr> =
   (Returns, \<lparr>queue = \<lparr>items = [[(''x'', 1)]], status = Open\<rparr>,
              effects = [HandlerCalled (Err ''not valid: not-json''), Pushed [(''x'', 1)]]\<rparr>)"
    using t[where events = "[data_frame ''{\"x\":1}'']" and fin = Done
        and st = "\<lparr>queue = new_AsyncQueue, effects = []\<rparr>", THEN conjunct2, THEN conjunct1] h2
    by (simp add: parse_x1_def data_frame_def queue_push_def push_def new_AsyncQueue_def)
  have c2: "readEventSourceStream parse_x1 (Some recording_handler)
     (EventStream [data_frame ''{\"x\":1}'', data_frame ''not-json'', data_frame ''{\"x\":1}''] Done) =
   (Returns, \<lparr>queue = \<lparr>items = [[(''x'', 1)], [(''x'', 1)]], status = Closed\<rparr>,
              effects = [Pushed [(''x'', 1)], HandlerCalled (Err ''not valid: not-json''),
                         Pushed [(''x'', 1)], CloseCalled]\<rparr>)"
    using t[where before = "[data_frame ''{\"x\":1}'']" and after = "[data_frame ''{\"x\":1}'']",
        THEN conjunct2, THEN conjunct2, THEN conjunct2] h3
    by (simp add: validated_def frame_effects_def parse_x1_def data_frame_def)
  have c3: "for_await parse_x1 (Some throwing_handler)
     [data_frame ''not-json'', data_frame ''{\"x\":1}''] Done
     \<lparr>queue = new_AsyncQueue, effects = []\<rparr> =
   (Throws (Err ''not valid: not-json''),
    \<lparr>queue = \<lparr>items = [], status = Open\<rparr>,
      effects = [HandlerCalled (Err ''not valid: not-json'')]\<rparr>)"
    using u[where events = "[data_frame ''{\"x\":1}'']" and fin = Done
        and st = "\<lparr>queue = new_AsyncQueue, effects = []\<rparr>", THEN conjunct1]
    by (simp add: handler_returns_def throwing_handler_def new_AsyncQueue_def del: for_await.simps)
  show ?thesis using h1 h2 h3 c1 c2 c3 by blast
qed

text \<open>
  Claim C1 as stated fails for a handler that throws. The exception leaves the loop
  (line 26 is inside the \<open>try\<close> block), the \<open>finally\<close> block closes the queue, and the
  valid frame that follows the malformed one is never read: the consumer receives
  nothing.
\<close>

theorem throwing_handler_ends_the_stream:
  "observed (readEventSourceStream parse_x1 (Some throwing_handler)
      (EventStream [data_frame ''not-json'', data_frame ''{\"x\":1}''] Done)) = ([], EndOfSequence) \<and>
   validated parse_x1 [data_frame ''not-json'', data_frame ''{\"x\":1}''] = [[(''x'', 1)]] \<and>
   for_await parse_x1 (Some throwing_handler)
     [data_frame ''not-json'', data_frame ''{\"x\":1}''] Done \<lparr>queue = new_AsyncQueue, effects = []\<rparr> \<noteq>
   for_await parse_x1 (Some throwing_handler)
     [data_frame ''{\"x\":1}''] Done
     \<lparr>queue = new_AsyncQueue, effects = [HandlerCalled (Err ''not valid: not-json'')]\<rparr>"
  by (simp add: observed_def readEventSourceStream_def then_callback_def catch_callback_def
      call_handler_def queue_close_def close_def queue_push_def push_def new_AsyncQueue_def
      parse_x1_def data_frame_def throwing_handler_def validated_def consume_Closed)

subsection \<open>C2: a failure of the underlying read\<close>

text \<open>
  Claim C2, as amended. When the underlying read fails during the iteration (the loop
  has processed the frames before the failure: the handler returned on the invalid ones,
  or there is none), the reader calls the error handler (when one was supplied) with the
  failure and then \<open>queue.close()\<close>, whether the handler returns or throws; the queue
  then holds the valid values and is closed. The consumer's iteration ends with a plain
  end of sequence; whatever the source and the handler, the consumer never receives an
  error signal from the queue. When the handler is absent or returns normally, the
  promise chain settles without an exception and these are the last calls of the run;
  with no handler the failure is reported nowhere. After a rejected setup promise the
  handler (when one was supplied) is called with the failure, and the sequence ends in
  the same plain way when the handler is absent or returns.
\<close>

theorem read_failure_ends_the_sequence_plainly:
  fixes safeParseJSON :: "string \<Rightarrow> 'x + 'a"
  shows
  "snd (observed (readEventSourceStream safeParseJSON errorHandler (EventStream events (ReadFailure e))))
     = EndOfSequence \<and>
   (\<forall>source e'. snd (observed (readEventSourceStream safeParseJSON errorHandler source)) \<noteq> Failure e') \<and>
   (returns_on_invalid safeParseJSON errorHandler events \<longrightarrow>
      effects (snd (readEventSourceStream safeParseJSON errorHandler (EventStream events (ReadFailure e)))) =
        frame_effects safeParseJSON errorHandler events @
        (case errorHandler of None \<Rightarrow> [] | Some h \<Rightarrow> [HandlerCalled e]) @ [CloseCalled] @
        (case errorHandler of
           None \<Rightarrow> []
         | Some h \<Rightarrow>
            (case h e of
               Returns \<Rightarrow> []
             | Throws e2 \<Rightarrow>
                 HandlerCalled e2 # (case h e2 of Returns \<Rightarrow> [CloseCalled] | Throws e3 \<Rightarrow> []))) \<and>
      queue (snd (readEventSourceStream safeParseJSON errorHandler (EventStream events (ReadFailure e)))) =
        \<lparr>items = validated safeParseJSON events, status = Closed\<rparr>) \<and>
   (returns_on_invalid safeParseJSON errorHandler events \<and> handler_returns errorHandler e \<longrightarrow>
      readEventSourceStream safeParseJSON errorHandler (EventStream events (ReadFailure e)) =
        (Returns, \<lparr>queue = \<lparr>items = validated safeParseJSON events, status = Closed\<rparr>,
                   effects = frame_effects safeParseJSON errorHandler events @
                     (case errorHandler of None \<Rightarrow> [] | Some h \<Rightarrow> [HandlerCalled e]) @ [CloseCalled]\<rparr>)) \<and>
   (\<exists>rest. effects (snd (readEventSourceStream safeParseJSON errorHandler (SetupRejected e))) =
             (case errorHandler of None \<Rightarrow> [] | Some h \<Rightarrow> [HandlerCalled e]) @ rest \<and>
           pushed_values rest = []) \<and>
   (handler_returns errorHandler e \<longrightarrow>
      observed (readEventSourceStream safeParseJSON errorHandler (SetupRejected e)) = ([], EndOfSequence))"
proof (intro conjI allI impI)
  show "snd (observed (readEventSourceStream safeParseJSON errorHandler (EventStream events (ReadFailure e))))
     = EndOfSequence"
    by (simp add: observed_stream_run[OF refl])
next
  fix source e'
  let ?q = "queue (snd (readEventSourceStream safeParseJSON errorHandler source))"
  have "status ?q = Open \<or> status ?q = Closed"
    using never_error_state[of safeParseJSON errorHandler source] by (cases "status ?q") auto
  then show "snd (observed (readEventSourceStream safeParseJSON errorHandler source)) \<noteq> Failure e'"
    by (auto simp: observed_def consume_Open consume_Closed)
next
  assume roi: "returns_on_invalid safeParseJSON errorHandler events"
  show "effects (snd (readEventSourceStream safeParseJSON errorHandler (EventStream events (ReadFailure e)))) =
        frame_effects safeParseJSON errorHandler events @
        (case errorHandler of None \<Rightarrow> [] | Some h \<Rightarrow> [HandlerCalled e]) @ [CloseCalled] @
        (case errorHandler of
           None \<Rightarrow> []
         | Some h \<Rightarrow>
            (case h e of
               Returns \<Rightarrow> []
             | Throws e2 \<Rightarrow>
                 HandlerCalled e2 # (case h e2 of Returns \<Rightarrow> [CloseCalled] | Throws e3 \<Rightarrow> [])))"
    using roi by (rule read_failure_effects(1))
  show "queue (snd (readEventSourceStream safeParseJSON errorHandler (EventStream events (ReadFailure e)))) =
        \<lparr>items = validated safeParseJSON events, status = Closed\<rparr>"
    using roi by (rule read_failure_effects(2))
next
  assume "returns_on_invalid safeParseJSON errorHandler events \<and> handler_returns errorHandler e"
  then show "readEventSourceStream safeParseJSON errorHandler (EventStream events (ReadFailure e)) =
        (Returns, \<lparr>queue = \<lparr>items = validated safeParseJSON events, status = Closed\<rparr>,
                   effects = frame_effects safeParseJSON errorHandler events @
                     (case errorHandler of None \<Rightarrow> [] | Some h \<Rightarrow> [HandlerCalled e]) @ [CloseCalled]\<rparr>)"
    by (simp add: stream_run_failure)
next
  show "\<exists>rest. effects (snd (readEventSourceStream safeParseJSON errorHandler (SetupRejected e))) =
             (case errorHandler of None \<Rightarrow> [] | Some h \<Rightarrow> [HandlerCalled e]) @ rest \<and>
           pushed_values rest = []"
    by (rule setup_rejected_effects)
next
  assume "handler_returns errorHandler e"
  then show "observed (readEventSourceStream safeParseJSON errorHandler (SetupRejected e)) = ([], EndOfSequence)"
    by (simp add: setup_run observed_def consume_Closed)
qed

theorem read_failure_ends_the_sequence_plainly_witness:
  "returns_on_invalid parse_x1 (Some recording_handler) [data_frame ''{\"x\":1}''] \<and>
   handler_returns (Some recording_handler) (Err ''connection lost'') \<and>
   readEventSourceStream parse_x1 (Some recording_handler)
       (EventStream [data_frame ''{\"x\":1}''] (ReadFailure (Err ''connection lost''))) =
     (Returns, \<lparr>queue = \<lparr>items = [[(''x'', 1)]], status = Closed\<rparr>,
                effects = [Pushed [(''x'', 1)], HandlerCalled (Err ''connection lost''), CloseCalled]\<rparr>) \<and>
   returns_on_invalid parse_x1 (Some throwing_handler) [data_frame ''{\"x\":1}''] \<and>
   effects (snd (readEventSourceStream parse_x1 (Some throwing_handler)
       (EventStream [data_frame ''{\"x\":1}''] (ReadFailure (Err ''connection lost''))))) =
     [Pushed [(''x'', 1)], HandlerCalled (Err ''connection lost''), CloseCalled,
      HandlerCalled (Err ''connection lost'')] \<and>
   queue (snd (readEventSourceStream parse_x1 (Some throwing_handler)
       (EventStream [data_frame ''{\"x\":1}''] (ReadFailure (Err ''connection lost''))))) =
     \<lparr>items = [[(''x'', 1)]], status = Closed\<rparr> \<and>
   snd (observed (readEventSourceStream parse_x1 (Some recording_handler)
       (EventStream [data_frame ''{\"x\":1}''] (ReadFailure (Err ''connection lost''))))) = EndOfSequence \<and>
   observed (readEventSourceStream parse_x1 (Some recording_handler)
       (SetupRejected (Err ''connection lost''))) = ([], EndOfSequence)"
proof -
  have h1: "returns_on_invalid parse_x1 (Some (recording_handler :: string js_error ErrorHandler))
      [data_frame ''{\"x\":1}'']"
    by (simp add: returns_on_invalid_def parse_x1_def data_frame_def)
  have h2: "handler_returns (Some (recording_handler :: string js_error ErrorHandler)) (Err ''connection lost'')"
    by (simp add: handler_returns_def recording_handler_def)
  have h3: "returns_on_invalid parse_x1 (Some (throwing_handler :: string js_error ErrorHandler))
      [data_frame ''{\"x\":1}'']"
    by (simp add: returns_on_invalid_def parse_x1_def data_frame_def)
  note t = read_failure_ends_the_sequence_plainly[where safeParseJSON = parse_x1
        and errorHandler = "Some recording_handler" and events = "[data_frame ''{\"x\":1}'']"
        and e = "Err ''connection lost''"]
  note u = read_failure_ends_the_sequence_plainly[where safeParseJSON = parse_x1
        and errorHandler = "Some throwing_handler" and events = "[data_frame ''{\"x\":1}'']"
        and e = "Err ''connection lost''", THEN conjunct2, THEN conjunct2, THEN conjunct1,
        rule_format, OF h3]
  have c1: "readEventSourceStream parse_x1 (Some recording_handler)
       (EventStream [data_frame ''{\"x\":1}''] (ReadFailure (Err ''connection lost''))) =
     (Returns, \<lparr>queue = \<lparr>items = [[(''x'', 1)]], status = Closed\<rparr>,
                effects = [Pushed [(''x'', 1)], HandlerCalled (Err ''connection lost''), CloseCalled]\<rparr>)"
    using t[THEN conjunct2, THEN conjunct2, THEN conjunct2, THEN conjunct1] h1 h2
    by (simp add: validated_def frame_effects_def parse_x1_def data_frame_def)
  have c2: "effects (snd (readEventSourceStream parse_x1 (Some throwing_handler)
       (EventStream [data_frame ''{\"x\":1}''] (ReadFailure (Err ''connection lost''))))) =
     [Pushed [(''x'', 1)], HandlerCalled (Err ''connection lost''), CloseCalled,
      HandlerCalled (Err ''connection lost'')]"
    using u[THEN conjunct1]
    by (simp add: frame_effects_def parse_x1_def data_frame_def throwing_handler_def)
  have c3: "queue (snd (readEventSourceStream parse_x1 (Some throwing_handler)
       (EventStream [data_frame ''{\"x\":1}''] (ReadFailure (Err ''connection lost''))))) =
     \<lparr>items = [[(''x'', 1)]], status = Closed\<rparr>"
    using u[THEN conjunct2]
    by (simp add: validated_def parse_x1_def data_frame_def)
  have c4: "snd (observed (readEventSourceStream parse_x1 (Some recording_handler)
       (EventStream [data_frame ''{\"x\":1}''] (ReadFailure (Err ''connection lost''))))) = EndOfSequence"
    using t[THEN conjunct1] .
  have c5: "observed (readEventSourceStream parse_x1 (Some recording_handler)
       (SetupRejected (Err ''connection lost''))) = ([], EndOfSequence)"
    using t[THEN conjunct2, THEN conjunct2, THEN conjunct2, THEN conjunct2, THEN conjunct2] h2 by blast
  show ?thesis using h1 h2 h3 c1 c2 c3 c4 c5 by blast
qed

text \<open>
  Claim C2 as stated fails: a read failure with no handler supplied ends the consumer's
  iteration with a plain end of sequence, and nothing reports the failure.
\<close>

theorem read_failure_gives_no_error_signal:
  "readEventSourceStream parse_x1 None (EventStream [] (ReadFailure (Err ''connection lost''))) =
     (Returns, \<lparr>queue = \<lparr>items = [], status = Closed\<rparr>, effects = [CloseCalled]\<rparr>) \<and>
   observed (readEventSourceStream parse_x1 None (EventStream [] (ReadFailure (Err ''connection lost'')))) =
     ([], EndOfSequence) \<and>
   snd (observed (readEventSourceStream parse_x1 None (EventStream [] (ReadFailure (Err ''connection lost'')))))
     \<noteq> Failure (Err ''connection lost'')"
  by (simp add: observed_def readEventSourceStream_def then_callback_def call_handler_def
      queue_close_def close_def new_AsyncQueue_def consume_Closed)

subsection \<open>C3: the events queued before a failure\<close>

text \<open>
  Claim C3, as amended. If the underlying stream fails after some events have been
  validated and pushed, the consumer still receives every pushed event, in the order of
  the pushes, before the sequence terminates (with a handler that returns, or none,
  these are all the valid events of the stream); the sequence then ends with a plain end
  of sequence, not with a final error.
\<close>

theorem queued_events_are_delivered_before_the_end:
  fixes safeParseJSON :: "string \<Rightarrow> 'x + 'a"
  shows "observed (readEventSourceStream safeParseJSON errorHandler (EventStream events (ReadFailure e))) =
     (pushed_values (effects (snd (readEventSourceStream safeParseJSON errorHandler
         (EventStream events (ReadFailure e))))), EndOfSequence) \<and>
   (returns_on_invalid safeParseJSON errorHandler events \<longrightarrow>
      observed (readEventSourceStream safeParseJSON errorHandler (EventStream events (ReadFailure e))) =
        (validated safeParseJSON events, EndOfSequence))"
proof (intro conjI impI)
  show "observed (readEventSourceStream safeParseJSON errorHandler (EventStream events (ReadFailure e))) =
     (pushed_values (effects (snd (readEventSourceStream safeParseJSON errorHandler
         (EventStream events (ReadFailure e))))), EndOfSequence)"
    by (rule observed_stream_run[OF refl])
next
  assume "returns_on_invalid safeParseJSON errorHandler events"
  then show "observed (readEventSourceStream safeParseJSON errorHandler (EventStream events (ReadFailure e))) =
        (validated safeParseJSON events, EndOfSequence)"
    using stream_run_closed(1)[OF refl, of safeParseJSON errorHandler events "ReadFailure e"]
    by (simp add: observed_def consume_Closed stream_run_items)
qed

theorem queued_events_are_delivered_before_the_end_witness:
  "returns_on_invalid parse_x1 (Some recording_handler)
     [data_frame ''{\"x\":1}'', data_frame ''not-json'', data_frame ''{\"x\":1}''] \<and>
   observed (readEventSourceStream parse_x1 (Some recording_handler)
     (EventStream [data_frame ''{\"x\":1}'', data_frame ''not-json'', data_frame ''{\"x\":1}'']
        (ReadFailure (Err ''timeout'')))) = ([[(''x'', 1)], [(''x'', 1)]], EndOfSequence)"
proof -
  have h: "returns_on_invalid parse_x1 (Some (recording_handler :: string js_error ErrorHandler))
     [data_frame ''{\"x\":1}'', data_frame ''not-json'', data_frame ''{\"x\":1}'']"
    by (simp add: returns_on_invalid_def parse_x1_def data_frame_def handler_returns_def
        recording_handler_def)
  show ?thesis
    using queued_events_are_delivered_before_the_end[where safeParseJSON = parse_x1
        and errorHandler = "Some recording_handler"
        and events = "[data_frame ''{\"x\":1}'', data_frame ''not-json'', data_frame ''{\"x\":1}'']"
        and e = "Err ''timeout''", THEN conjunct2] h
    by (simp add: validated_def parse_x1_def data_frame_def)
qed

text \<open>
  Claim C3 as stated fails in its last part: after one event has been pushed and the
  read has failed, the consumer receives the event and then a plain end of sequence; no
  final error is delivered.
\<close>

theorem failure_after_events_gives_no_final_error:
  "observed (readEventSourceStream parse_x1 (Some recording_handler)
     (EventStream [data_frame ''{\"x\":1}''] (ReadFailure (Err ''timeout'')))) =
     ([[(''x'', 1)]], EndOfSequence) \<and>
   snd (observed (readEventSourceStream parse_x1 (Some recording_handler)
     (EventStream [data_frame ''{\"x\":1}''] (ReadFailure (Err ''timeout''))))) \<noteq>
     Failure (Err ''timeout'')"
  by (simp add: observed_def readEventSourceStream_def then_callback_def call_handler_def
      queue_close_def close_def queue_push_def push_def new_AsyncQueue_def consume_Closed
      parse_x1_def data_frame_def recording_handler_def)

subsection \<open>C4: the order of the output\<close>

text \<open>
  Claim C4. For every event stream, the values the consumer receives are the values the
  reader pushed, in the order of the pushes, and these are values of frames that
  validated, in the order of the source stream: they are a prefix
  of the list of the valid frames' values, hence parse results of a subsequence of the
  frames; invalid frames leave no trace in the output. When the handler is absent or
  returns normally on the invalid frames, the output is the list of all valid values.
\<close>

theorem output_preserves_source_order:
  fixes safeParseJSON :: "string \<Rightarrow> 'x + 'a"
  shows "fst (observed (readEventSourceStream safeParseJSON errorHandler (EventStream events fin))) =
           pushed_values (effects (snd (readEventSourceStream safeParseJSON errorHandler
             (EventStream events fin)))) \<and>
   prefix (fst (observed (readEventSourceStream safeParseJSON errorHandler (EventStream events fin))))
           (validated safeParseJSON events) \<and>
   subseq (map Inr (fst (observed (readEventSourceStream safeParseJSON errorHandler (EventStream events fin)))))
           (map (\<lambda>ev. safeParseJSON (data ev)) events) \<and>
   (returns_on_invalid safeParseJSON errorHandler events \<longrightarrow>
      fst (observed (readEventSourceStream safeParseJSON errorHandler (EventStream events fin))) =
        validated safeParseJSON events)"
proof -
  let ?r = "readEventSourceStream safeParseJSON errorHandler (EventStream events fin)"
  have obs: "fst (observed ?r) = items (queue (snd ?r))"
    using stream_run_closed(1)[OF refl, of safeParseJSON errorHandler events fin]
    by (simp add: observed_def consume_Closed)
  have pre: "prefix (fst (observed ?r)) (validated safeParseJSON events)"
    using stream_run_closed(3)[OF refl, of safeParseJSON errorHandler events fin] obs by simp
  then have "subseq (fst (observed ?r)) (validated safeParseJSON events)"
    by (rule prefix_imp_subseq)
  then have "subseq (map Inr (fst (observed ?r)) :: ('x + 'a) list) (map Inr (validated safeParseJSON events))"
    by (simp add: subseq_map)
  then have sub: "subseq (map Inr (fst (observed ?r))) (map (\<lambda>ev. safeParseJSON (data ev)) events)"
    using subseq_validated[of safeParseJSON events] subseq_order.trans by blast
  have "fst (observed ?r) = validated safeParseJSON events"
    if "returns_on_invalid safeParseJSON errorHandler events"
    using that obs by (simp add: stream_run_items)
  moreover have "fst (observed ?r) = pushed_values (effects (snd ?r))"
    by (simp add: observed_stream_run[OF refl])
  ultimately show ?thesis using pre sub by blast
qed

theorem output_preserves_source_order_witness:
  "returns_on_invalid parse_x1 None
     [data_frame ''{\"x\":1}'', data_frame ''[]'', data_frame ''{\"x\":1}'', data_frame ''not-json''] \<and>
   fst (observed (readEventSourceStream parse_x1 None
     (EventStream [data_frame ''{\"x\":1}'', data_frame ''[]'', data_frame ''{\"x\":1}'', data_frame ''not-json'']
        Done))) = [[(''x'', 1)], [(''x'', 1)]]"
proof -
  have h: "returns_on_invalid parse_x1 None
     [data_frame ''{\"x\":1}'', data_frame ''[]'', data_frame ''{\"x\":1}'', data_frame ''not-json'']"
    by (simp add: returns_on_invalid_def parse_x1_def data_frame_def handler_returns_def)
  show ?thesis
    using output_preserves_source_order[where safeParseJSON = parse_x1 and errorHandler = None
        and events = "[data_frame ''{\"x\":1}'', data_frame ''[]'', data_frame ''{\"x\":1}'', data_frame ''not-json'']"
        and fin = Done, THEN conjunct2, THEN conjunct2, THEN conjunct2] h
    by (simp add: validated_def parse_x1_def data_frame_def)
qed

subsection \<open>C5: one valid and one malformed event\<close>

text \<open>
  Claim C5, as amended. For a stream of one event with the data \<open>{"x":1}\<close>, which
  parses to a value \<open>v\<close>, and one event with the data \<open>not-json\<close>, which fails to parse,
  in either order, that then ends normally, and a supplied error handler that returns
  normally when it is given the failure: the output sequence is exactly \<open>v\<close> and the
  error handler is called exactly once, with the failure of the malformed frame.
\<close>

theorem one_valid_one_malformed_event:
  assumes "data good = ''{\"x\":1}''" and "data bad = ''not-json''"
    and "safeParseJSON ''{\"x\":1}'' = Inr v" and "safeParseJSON ''not-json'' = Inl x"
    and "handler (Err x) = Returns"
  shows "readEventSourceStream safeParseJSON (Some handler) (EventStream [good, bad] Done) =
           (Returns, \<lparr>queue = \<lparr>items = [v], status = Closed\<rparr>,
                      effects = [Pushed v, HandlerCalled (Err x), CloseCalled]\<rparr>) \<and>
         observed (readEventSourceStream safeParseJSON (Some handler) (EventStream [good, bad] Done)) =
           ([v], EndOfSequence) \<and>
         handler_calls (effects (snd (readEventSourceStream safeParseJSON (Some handler)
           (EventStream [good, bad] Done)))) = [Err x] \<and>
         observed (readEventSourceStream safeParseJSON (Some handler) (EventStream [bad, good] Done)) =
           ([v], EndOfSequence) \<and>
         handler_calls (effects (snd (readEventSourceStream safeParseJSON (Some handler)
           (EventStream [bad, good] Done)))) = [Err x]"
  using assms
  by (simp add: readEventSourceStream_def then_callback_def call_handler_def queue_push_def
      push_def queue_close_def close_def new_AsyncQueue_def observed_def consume_Closed
      handler_calls_def)

theorem one_valid_one_malformed_event_witness:
  "data (data_frame ''{\"x\":1}'') = ''{\"x\":1}'' \<and> data (data_frame ''not-json'') = ''not-json'' \<and>
   parse_x1 ''{\"x\":1}'' = Inr [(''x'', 1)] \<and> parse_x1 ''not-json'' = Inl ''not valid: not-json'' \<and>
   recording_handler (Err ''not valid: not-json'') = Returns \<and>
   observed (readEventSourceStream parse_x1 (Some recording_handler)
      (EventStream [data_frame ''{\"x\":1}'', data_frame ''not-json''] Done)) =
     ([[(''x'', 1)]], EndOfSequence) \<and>
   handler_calls (effects (snd (readEventSourceStream parse_x1 (Some recording_handler)
      (EventStream [data_frame ''{\"x\":1}'', data_frame ''not-json''] Done)))) =
     [Err ''not valid: not-json'']"
proof -
  have h1: "data (data_frame ''{\"x\":1}'') = ''{\"x\":1}''" and h2: "data (data_frame ''not-json'') = ''not-json''"
    by (simp_all add: data_frame_def)
  have h3: "parse_x1 ''{\"x\":1}'' = Inr [(''x'', 1)]" and h4: "parse_x1 ''not-json'' = Inl ''not valid: not-json''"
    by (simp_all add: parse_x1_def)
  have h5: "(recording_handler :: string js_error ErrorHandler) (Err ''not valid: not-json'') = Returns"
    by (simp add: recording_handler_def)
  show ?thesis
    using one_valid_one_malformed_event[where good = "data_frame ''{\"x\":1}''"
        and bad = "data_frame ''not-json''" and safeParseJSON = parse_x1 and v = "[(''x'', 1)]"
        and x = "''not valid: not-json''" and handler = recording_handler, OF h1 h2 h3 h4 h5]
      h1 h2 h3 h4 h5
    by (simp add: observed_def consume_Closed handler_calls_def)
qed

text \<open>
  Claim C5 as stated fails for a handler that throws. With the valid event first, the
  handler is called three times (line 26, then the \<open>catch\<close> block, then the \<open>.catch\<close>
  callback, each time with what the call before threw); with the malformed event first,
  the valid event is never read and the output is empty.
\<close>

theorem throwing_handler_is_called_three_times:
  "handler_calls (effects (snd (readEventSourceStream parse_x1 (Some throwing_handler)
      (EventStream [data_frame ''{\"x\":1}'', data_frame ''not-json''] Done)))) =
     [Err ''not valid: not-json'', Err ''not valid: not-json'', Err ''not valid: not-json''] \<and>
   observed (readEventSourceStream parse_x1 (Some throwing_handler)
      (EventStream [data_frame ''{\"x\":1}'', data_frame ''not-json''] Done)) =
     ([[(''x'', 1)]], EndOfSequence) \<and>
   handler_calls (effects (snd (readEventSourceStream parse_x1 (Some throwing_handler)
      (EventStream [data_frame ''not-json'', data_frame ''{\"x\":1}''] Done)))) =
     [Err ''not valid: not-json'', Err ''not valid: not-json'', Err ''not valid: not-json''] \<and>
   fst (observed (readEventSourceStream parse_x1 (Some throwing_handler)
      (EventStream [data_frame ''not-json'', data_frame ''{\"x\":1}''] Done))) = []"
  by (simp add: observed_def readEventSourceStream_def then_callback_def catch_callback_def
      call_handler_def queue_close_def close_def queue_push_def push_def new_AsyncQueue_def
      parse_x1_def data_frame_def throwing_handler_def handler_calls_def consume_Closed)

subsection \<open>C6: no handler supplied\<close>

text \<open>
  Claim C6. With no error handler, validation failures are dropped silently: the promise
  chain settles without an exception, no handler call is recorded, and every valid event
  of the stream is delivered, also those after an invalid one. A failure of the read or
  of the setup promise still closes the queue: the consumer's iteration ends.
\<close>

theorem without_a_handler:
  fixes safeParseJSON :: "string \<Rightarrow> 'x + 'a"
  shows "readEventSourceStream safeParseJSON None (EventStream events Done) =
     (Returns, \<lparr>queue = \<lparr>items = validated safeParseJSON events, status = Closed\<rparr>,
                effects = map Pushed (validated safeParseJSON events) @ [CloseCalled]\<rparr>) \<and>
   readEventSourceStream safeParseJSON None (EventStream events (ReadFailure e)) =
     (Returns, \<lparr>queue = \<lparr>items = validated safeParseJSON events, status = Closed\<rparr>,
                effects = map Pushed (validated safeParseJSON events) @ [CloseCalled]\<rparr>) \<and>
   readEventSourceStream safeParseJSON None (SetupRejected e) =
     (Returns, \<lparr>queue = \<lparr>items = [], status = Closed\<rparr>, effects = [CloseCalled]\<rparr>) \<and>
   observed (readEventSourceStream safeParseJSON None (EventStream events fin)) =
     (validated safeParseJSON events, EndOfSequence) \<and>
   observed (readEventSourceStream safeParseJSON None (SetupRejected e)) = ([], EndOfSequence)"
proof -
  have roi: "returns_on_invalid safeParseJSON None events"
    by (simp add: returns_on_invalid_def handler_returns_def list_all_iff split: sum.splits)
  have hr: "handler_returns None e" by (simp add: handler_returns_def)
  have fe: "frame_effects safeParseJSON None events = map Pushed (validated safeParseJSON events)"
    by (induction events) (simp_all add: frame_effects_def validated_def split: sum.splits)
  have obs: "observed (readEventSourceStream safeParseJSON None (EventStream events fin)) =
     (validated safeParseJSON events, EndOfSequence)"
    using stream_run_closed(1)[OF refl, of safeParseJSON None events fin]
    by (simp add: observed_def consume_Closed stream_run_items[OF roi])
  show ?thesis
    using stream_run_returns[OF roi] stream_run_failure[OF roi hr] setup_run[OF hr, of safeParseJSON] fe obs
    by (simp add: observed_def consume_Closed)
qed

theorem without_a_handler_witness:
  "readEventSourceStream parse_x1 None
     (EventStream [data_frame ''not-json'', data_frame ''{\"x\":1}''] Done) =
     (Returns, \<lparr>queue = \<lparr>items = [[(''x'', 1)]], status = Closed\<rparr>,
                effects = [Pushed [(''x'', 1)], CloseCalled]\<rparr>) \<and>
   observed (readEventSourceStream parse_x1 None
     (EventStream [data_frame ''not-json'', data_frame ''{\"x\":1}''] (ReadFailure (Err ''reset'')))) =
     ([[(''x'', 1)]], EndOfSequence)"
  using without_a_handler[where safeParseJSON = parse_x1
      and events = "[data_frame ''not-json'', data_frame ''{\"x\":1}'']" and e = "Err ''reset''"
      and fin = "ReadFailure (Err ''reset'')"]
  by (simp add: validated_def parse_x1_def data_frame_def observed_def consume_Closed)

subsection \<open>C8: close() on every terminating run\<close>

text \<open>
  Claim C8 at the input where the code departs from it: the setup promise is rejected
  and the supplied handler throws. The \<open>.catch\<close> callback calls the handler first
  (line 39), the exception leaves the callback, and \<open>queue.close()\<close> on line 40 is not
  reached: the queue stays open and the consumer's iteration stays pending. (The
  \<open>.then\<close> callback closes the queue in a \<open>finally\<close> block, which a throwing handler
  cannot skip; \<open>close_is_called\<close> above covers every other run.)
\<close>

theorem throwing_handler_on_setup_failure_leaves_queue_open:
  "readEventSourceStream parse_x1 (Some throwing_handler) (SetupRejected (Err ''no connection'')) =
     (Throws (Err ''no connection''),
      \<lparr>queue = \<lparr>items = [], status = Open\<rparr>, effects = [HandlerCalled (Err ''no connection'')]\<rparr>) \<and>
   CloseCalled \<notin> set (effects (snd (readEventSourceStream parse_x1 (Some throwing_handler)
     (SetupRejected (Err ''no connection''))))) \<and>
   observed (readEventSourceStream parse_x1 (Some throwing_handler)
     (SetupRejected (Err ''no connection''))) = ([], Pending)"
  by (simp add: readEventSourceStream_def catch_callback_def call_handler_def throwing_handler_def
      new_AsyncQueue_def observed_def consume_Open)

section \<open>Claims about convertReadableStreamToAsyncIterator\<close>

text \<open>
  Claim C7. For a reader whose successive \<open>read()\<close> calls yield \<open>v1..vn\<close> and then the
  done signal, a consumer that iterates to the end receives exactly \<open>v1..vn\<close> in this
  order and then the end of the sequence, after \<open>n + 1\<close> calls of \<open>read()\<close>. The pass
  is lazy and forward only: the first \<open>k\<close> calls of \<open>next()\<close> make \<open>k\<close> reads and yield
  the first \<open>k\<close> values; once the generator has completed, further calls answer the end
  of the sequence and read nothing.
\<close>

theorem iterator_yields_reader_values:
  assumes "pending reader = vs" and "ending reader = None"
  shows "iterate (convertReadableStreamToAsyncIterator reader) =
           (vs, EndOfSequence,
            Completed (reader\<lparr>pending := [], reads := reads reader + length vs + 1\<rparr>)) \<and>
         (\<forall>k \<le> length vs.
            next_n k (convertReadableStreamToAsyncIterator reader) =
              (map Item (take k vs),
               Suspended (reader\<lparr>pending := drop k vs, reads := reads reader + k\<rparr>))) \<and>
         (\<forall>j. next_n (length vs + 1 + j) (convertReadableStreamToAsyncIterator reader) =
              (map Item vs @ replicate (Suc j) EndOfSequence,
               Completed (reader\<lparr>pending := [], reads := reads reader + length vs + 1\<rparr>)))"
proof (intro conjI allI impI)
  show "iterate (convertReadableStreamToAsyncIterator reader) =
           (vs, EndOfSequence,
            Completed (reader\<lparr>pending := [], reads := reads reader + length vs + 1\<rparr>))"
    using iterate_finite_reader[OF assms(2)] assms(1)
    by (simp add: convertReadableStreamToAsyncIterator_def)
next
  fix k assume "k \<le> length vs"
  then show "next_n k (convertReadableStreamToAsyncIterator reader) =
              (map Item (take k vs),
               Suspended (reader\<lparr>pending := drop k vs, reads := reads reader + k\<rparr>))"
    using next_n_values[of k reader] assms(1)
    by (simp add: convertReadableStreamToAsyncIterator_def)
next
  fix j
  let ?r = "reader\<lparr>pending := [], reads := reads reader + length vs\<rparr>"
  have a: "next_n (length vs) (Suspended reader) = (map Item vs, Suspended ?r)"
    using next_n_values[of "length vs" reader] assms(1) by simp
  have split: "next_n (m + n) g = (case next_n m g of (rs, g') \<Rightarrow> (case next_n n g' of (rs', g'') \<Rightarrow> (rs @ rs', g'')))"
    for m n and g :: "('a, 'b) generator"
    by (induction m arbitrary: g) (auto split: prod.splits)
  have b: "next_n (Suc j) (Suspended ?r) =
      (replicate (Suc j) EndOfSequence, Completed (?r\<lparr>reads := Suc (reads ?r)\<rparr>))"
    using assms(2) by (simp add: iterator_next_done next_n_completed)
  have "next_n (length vs + Suc j) (Suspended reader) =
      (map Item vs @ replicate (Suc j) EndOfSequence, Completed (?r\<lparr>reads := Suc (reads ?r)\<rparr>))"
    unfolding split[of "length vs" "Suc j"] a using b by simp
  then show "next_n (length vs + 1 + j) (convertReadableStreamToAsyncIterator reader) =
              (map Item vs @ replicate (Suc j) EndOfSequence,
               Completed (reader\<lparr>pending := [], reads := reads reader + length vs + 1\<rparr>))"
    by (simp add: convertReadableStreamToAsyncIterator_def)
qed

theorem iterator_yields_reader_values_witness:
  "iterate (convertReadableStreamToAsyncIterator
      \<lparr>pending = [''a'', ''b'', ''c''], ending = (None :: unit option), reads = 0\<rparr>) =
     ([''a'', ''b'', ''c''], EndOfSequence, Completed \<lparr>pending = [], ending = None, reads = 4\<rparr>) \<and>
   next_n 2 (convertReadableStreamToAsyncIterator
      \<lparr>pending = [''a'', ''b'', ''c''], ending = (None :: unit option), reads = 0\<rparr>) =
     ([Item ''a'', Item ''b''], Suspended \<lparr>pending = [''c''], ending = None, reads = 2\<rparr>) \<and>
   next_n 5 (convertReadableStreamToAsyncIterator
      \<lparr>pending = [''a'', ''b'', ''c''], ending = (None :: unit option), reads = 0\<rparr>) =
     ([Item ''a'', Item ''b'', Item ''c'', EndOfSequence, EndOfSequence],
      Completed \<lparr>pending = [], ending = None, reads = 4\<rparr>)"
proof -
  let ?r = "\<lparr>pending = [''a'', ''b'', ''c''], ending = (None :: unit option), reads = 0\<rparr>"
  have h1: "pending ?r = [''a'', ''b'', ''c'']" and h2: "ending ?r = None" by simp_all
  note t = iterator_yields_reader_values[OF h1 h2]
  have c1: "iterate (convertReadableStreamToAsyncIterator ?r) =
     ([''a'', ''b'', ''c''], EndOfSequence, Completed \<lparr>pending = [], ending = None, reads = 4\<rparr>)"
    using t by simp
  have c2: "next_n 2 (convertReadableStreamToAsyncIterator ?r) =
     ([Item ''a'', Item ''b''], Suspended \<lparr>pending = [''c''], ending = None, reads = 2\<rparr>)"
    using t[THEN conjunct2, THEN conjunct1, rule_format, of 2] by simp
  have c3: "next_n 5 (convertReadableStreamToAsyncIterator ?r) =
     ([Item ''a'', Item ''b'', Item ''c'', EndOfSequence, EndOfSequence],
      Completed \<lparr>pending = [], ending = None, reads = 4\<rparr>)"
    using t[THEN conjunct2, THEN conjunct2, rule_format, of 1] by (simp add: numeral_eq_Suc)
  show ?thesis using c1 c2 c3 by blast
qed

section \<open>Claims about CohereTextEmbeddingModel\<close>

subsection \<open>C9: at most 96 texts per call\<close>

text \<open>
  Claim C9. A call of \<open>callAPI\<close> with more than 96 texts fails with the error that
  reports the limit of 96 texts per call, whatever the retry function, the throttle
  function and the network call are, and leaves the world outside as it was: none of
  them has run. With at most 96 texts the guard raises nothing: the call is the retry
  function applied to the throttled network call, and settles as that does.
\<close>

theorem callAPI_texts_per_call_limit:
  "(length texts > 96 \<longrightarrow>
      callAPI env h this texts context w =
        (Inl (TextsPerCallError ''The Cohere embedding API only supports 96 texts per API call.''), w)) \<and>
   (length texts \<le> 96 \<longrightarrow> objects h (settings this) = Some s \<longrightarrow>
      callAPI env h this texts context w =
        call (retry env s)
          (\<lambda>w1. call (throttle env s)
             (\<lambda>w2. case apiKey env s of
                      Inl err \<Rightarrow> (Inl err, w2)
                    | Inr key \<Rightarrow>
                        callCohereEmbeddingAPI env
                          \<lparr>arg_abortSignal = (case context of None \<Rightarrow> None | Some c \<Rightarrow> abortSignal c),
                           arg_apiKey = key, arg_texts = texts, arg_settings = s\<rparr> w2)
             w1)
          w)"
  using decimal_maxTextsPerCall by (simp add: callAPI_def maxTextsPerCall_def)

theorem callAPI_texts_per_call_limit_witness:
  "length (replicate 97 ''text'') > 96 \<and>
   callAPI sample_environment sample_heap sample_model (replicate 97 ''text'') None 0 =
     (Inl (TextsPerCallError ''The Cohere embedding API only supports 96 texts per API call.''), 0) \<and>
   length (replicate 96 ''text'') \<le> 96 \<and>
   objects sample_heap (settings sample_model) =
     Some [''model'' \<mapsto> Str ''embed-english-v2.0'', ''apiKey'' \<mapsto> Str ''key-in-settings''] \<and>
   callAPI sample_environment sample_heap sample_model (replicate 96 ''text'') None 0 =
     (Inr (replicate 96 ''text''), 1)"
proof -
  have h1: "length (replicate 97 ''text'') > 96" and h2: "length (replicate 96 ''text'') \<le> 96"
    by simp_all
  have h3: "objects sample_heap (settings sample_model) =
     Some [''model'' \<mapsto> Str ''embed-english-v2.0'', ''apiKey'' \<mapsto> Str ''key-in-settings'']"
    by (simp add: sample_heap_def sample_model_def)
  have c1: "callAPI sample_environment sample_heap sample_model (replicate 97 ''text'') None 0 =
     (Inl (TextsPerCallError ''The Cohere embedding API only supports 96 texts per API call.''), 0)"
    using callAPI_texts_per_call_limit[of "replicate 97 ''text''" sample_environment sample_heap
        sample_model None 0, THEN conjunct1] h1 by blast
  have c2: "callAPI sample_environment sample_heap sample_model (replicate 96 ''text'') None 0 =
     (Inr (replicate 96 ''text''), 1)"
    using callAPI_texts_per_call_limit[of "replicate 96 ''text''" sample_environment sample_heap
        sample_model None 0, THEN conjunct2, rule_format, OF h2 h3]
    by (simp add: call_def retry_def throttle_def apiKey_def property_def sample_environment_def)
  show ?thesis using h1 h2 h3 c1 c2 by blast
qed

subsection \<open>C10: withSettings\<close>




end
